theory Spec2Isabelle
  imports Complex_Main "HOL-Library.Sublist"
begin

section \<open>Strings\<close>

text \<open>
  Python strings are modelled as \<^typ>\<open>string\<close>; a character stands for a code point
  below 256. The passes use three string operations: the substring test \<open>tok in txt\<close>,
  \<open>txt.replace(old, new)\<close> and \<open>txt.strip()\<close> (only through \<open>not txt.strip()\<close>).
\<close>

fun contains :: "string \<Rightarrow> string \<Rightarrow> bool" where
  "contains tok [] = (tok = [])"
| "contains tok (c # cs) = (prefix tok (c # cs) \<or> contains tok cs)"

text \<open>
  \<open>txt.replace(old, new)\<close>: the occurrences of \<open>old\<close> are found from the left and do not
  overlap; with an empty \<open>old\<close>, \<open>new\<close> is put before every character and at the end.
\<close>

function str_replace :: "string \<Rightarrow> string \<Rightarrow> string \<Rightarrow> string" where
  "str_replace old new [] = (if old = [] then new else [])"
| "str_replace old new (c # cs) =
     (if old = [] then new @ c # str_replace old new cs
      else if prefix old (c # cs) then new @ str_replace old new (drop (length old) (c # cs))
      else c # str_replace old new cs)"
  by pat_completeness auto
termination
  by (relation "measure (\<lambda>(old, new, txt). length txt)") auto

text \<open>The characters below 256 that \<open>str.isspace\<close> accepts, which \<open>strip\<close> removes.\<close>

definition is_space :: "char \<Rightarrow> bool" where
  "is_space c = (of_char c \<in> {9::nat, 10, 11, 12, 13, 28, 29, 30, 31, 32, 133, 160})"

text \<open>\<open>not txt.strip()\<close>: the text is empty or holds whitespace only.\<close>

definition is_blank :: "string \<Rightarrow> bool" where
  "is_blank txt = list_all is_space txt"

section \<open>Lengths\<close>

text \<open>
  \<open>docx.shared.Length\<close> is an integer number of English Metric Units; \<open>Cm\<close> and \<open>Pt\<close>
  build one with \<open>int(x * 360000)\<close> and \<open>int(x * 12700)\<close>, and \<open>int\<close> truncates towards
  zero. The arguments are rationals here; the source passes the floats 0, 1.25, 2.0,
  3.0, 4, 6, 10, 12 and the indent chosen by the user.
\<close>

definition py_int :: "rat \<Rightarrow> int" where
  "py_int x = (if 0 \<le> x then \<lfloor>x\<rfloor> else \<lceil>x\<rceil>)"

definition Cm :: "rat \<Rightarrow> int" where
  "Cm x = py_int (x * 360000)"

definition Pt :: "rat \<Rightarrow> int" where
  "Pt x = py_int (x * 12700)"

section \<open>The document\<close>

datatype alignment = LEFT | CENTER | RIGHT | JUSTIFY

record paragraph_format =
  alignment :: "alignment option"
  first_line_indent :: "int option"
  left_indent :: "int option"
  right_indent :: "int option"
  line_spacing :: "rat option"
  space_before :: "int option"
  space_after :: "int option"

text \<open>
  A run is the list of its content elements: text (\<open>w:t\<close>), an embedded graphic
  (\<open>w:drawing\<close>), and the field elements the footer pass appends.
\<close>

datatype inline = WT string | WDrawing | WFldChar string | WInstrText string

type_synonym run = "inline list"

text \<open>
  A paragraph: its runs, the style its \<open>w:pStyle\<close> names (if any) and its own
  formatting properties. \<open>paragraph.alignment\<close> is \<open>paragraph.paragraph_format.alignment\<close>.
\<close>

record para =
  runs :: "run list"
  pStyle :: "string option"
  pf :: paragraph_format

datatype trPr_child = CantSplit | TblHeader | OtherTrPr string

text \<open>A table row: the children of its \<open>w:trPr\<close> (\<open>None\<close> when it has none) and its cells.\<close>

record row =
  trPr :: "trPr_child list option"
  cells :: "string list"

record table =
  rows :: "row list"

text \<open>
  The children of the document body, in document order: paragraphs (\<open>w:p\<close>), tables
  (\<open>w:tbl\<close>) and any other element, kept by its tag (\<open>w:sectPr\<close>, for one).
\<close>

datatype block = P para | Tbl table | Other string

record pstyle =
  font_name :: "string option"
  font_size :: "int option"
  style_pf :: paragraph_format

text \<open>
  A section: its margins and its footer definition (\<open>None\<close> when the footer is linked to
  the previous section's).
\<close>

record doc_section =
  top_margin :: "int option"
  left_margin :: "int option"
  right_margin :: "int option"
  bottom_margin :: "int option"
  footer :: "para list option"

record document =
  sections :: "doc_section list"
  styles :: "string \<rightharpoonup> pstyle"
  default_style :: "string option"
  body :: "block list"

datatype error = KeyError | AttributeError | IndexError

subsection \<open>What the library gives\<close>

text \<open>\<open>doc.paragraphs\<close> and \<open>doc.tables\<close>: the paragraphs and the tables that are children of the body.\<close>

fun paragraphs :: "block list \<Rightarrow> para list" where
  "paragraphs [] = []"
| "paragraphs (P p # bs) = p # paragraphs bs"
| "paragraphs (b # bs) = paragraphs bs"

fun tables :: "block list \<Rightarrow> table list" where
  "tables [] = []"
| "tables (Tbl t # bs) = t # tables bs"
| "tables (b # bs) = tables bs"

fun run_text :: "run \<Rightarrow> string" where
  "run_text [] = []"
| "run_text (WT s # r) = s @ run_text r"
| "run_text (i # r) = run_text r"

text \<open>\<open>paragraph.text\<close>: the text of the runs, concatenated.\<close>

definition para_text :: "para \<Rightarrow> string" where
  "para_text p = concat (map run_text (runs p))"

text \<open>\<open>run.text = s\<close> replaces the content of the run by the text.\<close>

definition set_run_text :: "string \<Rightarrow> run" where
  "set_run_text s = (if s = [] then [] else [WT s])"

text \<open>
  \<open>paragraph.text = s\<close> removes every run of the paragraph (its properties stay) and adds
  one run holding \<open>s\<close>.
\<close>

definition set_para_text :: "para \<Rightarrow> string \<Rightarrow> para" where
  "set_para_text p s = p\<lparr>runs := [set_run_text s]\<rparr>"

text \<open>\<open>paragraph._element.xpath('.//w:drawing')\<close> is not empty.\<close>

definition has_drawing :: "para \<Rightarrow> bool" where
  "has_drawing p = list_ex (\<lambda>r. WDrawing \<in> set r) (runs p)"

text \<open>
  \<open>paragraph.style\<close>: the style that \<open>w:pStyle\<close> names when the registry has it, else the
  default paragraph style; \<open>None\<close> when there is neither. The result is the style's name
  in the registry, since the style object is shared by all the paragraphs that resolve
  to it.
\<close>

definition default_name :: "(string \<rightharpoonup> pstyle) \<Rightarrow> string option \<Rightarrow> string option" where
  "default_name sty dflt =
     (case dflt of None \<Rightarrow> None
      | Some d \<Rightarrow> (case sty d of None \<Rightarrow> None | Some s \<Rightarrow> Some d))"

definition style_name :: "(string \<rightharpoonup> pstyle) \<Rightarrow> string option \<Rightarrow> para \<Rightarrow> string option" where
  "style_name sty dflt p =
     (case pStyle p of None \<Rightarrow> default_name sty dflt
      | Some n \<Rightarrow> (case sty n of None \<Rightarrow> default_name sty dflt | Some s \<Rightarrow> Some n))"

text \<open>\<open>paragraph.style.font.size\<close>, read through the style the paragraph resolves to.\<close>

definition style_font_size :: "(string \<rightharpoonup> pstyle) \<Rightarrow> string option \<Rightarrow> para \<Rightarrow> int option" where
  "style_font_size sty dflt p =
     (case style_name sty dflt p of None \<Rightarrow> None
      | Some n \<Rightarrow> (case sty n of None \<Rightarrow> None | Some s \<Rightarrow> font_size s))"

section \<open>Long quotations\<close>

definition OPEN_LQ :: string where
  "OPEN_LQ = ''[[CITACAO_LONGA]]''"

definition CLOSE_LQ :: string where
  "CLOSE_LQ = ''[[/CITACAO_LONGA]]''"

text \<open>
  \<open>apply_long_quote_style\<close>: four assignments to the paragraph's own format, then
  \<open>paragraph.style.font.size = Pt(10) if paragraph.style and paragraph.style.font else None\<close>,
  then the alignment. The font size is written to the style object: with no style the
  target of the assignment raises AttributeError.
\<close>

definition apply_long_quote_style ::
  "(string \<rightharpoonup> pstyle) \<Rightarrow> string option \<Rightarrow> para \<Rightarrow> error + (para \<times> (string \<rightharpoonup> pstyle))" where
  "apply_long_quote_style sty dflt p =
     (let p1 = p\<lparr>pf := (pf p)\<lparr>first_line_indent := Some (Cm 0), left_indent := Some (Cm 4),
                               right_indent := Some (Cm 0), line_spacing := Some 1\<rparr>\<rparr>
      in case style_name sty dflt p1 of
           None \<Rightarrow> Inl AttributeError
         | Some n \<Rightarrow>
            (case sty n of
               None \<Rightarrow> Inl AttributeError
             | Some s \<Rightarrow>
                 Inr (p1\<lparr>pf := (pf p1)\<lparr>alignment := Some JUSTIFY\<rparr>\<rparr>,
                      sty(n \<mapsto> s\<lparr>font_size := Some (Pt 10)\<rparr>))))"

definition cons_block ::
  "block \<Rightarrow> error + (block list \<times> 's \<times> nat) \<Rightarrow> error + (block list \<times> 's \<times> nat)" where
  "cons_block b r = (case r of Inl e \<Rightarrow> Inl e | Inr (bs, s, n) \<Rightarrow> Inr (b # bs, s, n))"

text \<open>
  The loop of \<open>process_long_quote_markers\<close> over \<open>doc.paragraphs\<close>; the other children of
  the body are not in that list and stay as they are.
\<close>

fun plqm_loop ::
  "bool \<Rightarrow> nat \<Rightarrow> (string \<rightharpoonup> pstyle) \<Rightarrow> string option \<Rightarrow> block list
     \<Rightarrow> error + (block list \<times> (string \<rightharpoonup> pstyle) \<times> nat)" where
  "plqm_loop in_block changed sty dflt [] = Inr ([], sty, changed)"
| "plqm_loop in_block changed sty dflt (P p # bs) =
     (if contains OPEN_LQ (para_text p) then
        (case apply_long_quote_style sty dflt
                (set_para_text p (str_replace OPEN_LQ [] (para_text p))) of
           Inl e \<Rightarrow> Inl e
         | Inr (p', sty') \<Rightarrow> cons_block (P p') (plqm_loop True (changed + 1) sty' dflt bs))
      else if contains CLOSE_LQ (para_text p) then
        (case apply_long_quote_style sty dflt
                (set_para_text p (str_replace CLOSE_LQ [] (para_text p))) of
           Inl e \<Rightarrow> Inl e
         | Inr (p', sty') \<Rightarrow> cons_block (P p') (plqm_loop False (changed + 1) sty' dflt bs))
      else if in_block then
        (case apply_long_quote_style sty dflt p of
           Inl e \<Rightarrow> Inl e
         | Inr (p', sty') \<Rightarrow> cons_block (P p') (plqm_loop in_block (changed + 1) sty' dflt bs))
      else cons_block (P p) (plqm_loop in_block changed sty dflt bs))"
| "plqm_loop in_block changed sty dflt (Tbl t # bs) =
     cons_block (Tbl t) (plqm_loop in_block changed sty dflt bs)"
| "plqm_loop in_block changed sty dflt (Other x # bs) =
     cons_block (Other x) (plqm_loop in_block changed sty dflt bs)"

definition process_long_quote_markers :: "document \<Rightarrow> error + (document \<times> nat)" where
  "process_long_quote_markers doc =
     (case plqm_loop False 0 (styles doc) (default_style doc) (body doc) of
        Inl e \<Rightarrow> Inl e
      | Inr (bs, sty, n) \<Rightarrow> Inr (doc\<lparr>styles := sty, body := bs\<rparr>, n))"

section \<open>The references block\<close>

definition OPEN_REFS :: string where
  "OPEN_REFS = ''[[REFERENCIAS]]''"

definition CLOSE_REFS :: string where
  "CLOSE_REFS = ''[[/REFERENCIAS]]''"

definition refs_style :: "rat \<Rightarrow> rat \<Rightarrow> rat \<Rightarrow> para \<Rightarrow> para" where
  "refs_style hanging_cm spacing between_pts p =
     p\<lparr>pf := (pf p)\<lparr>first_line_indent := Some (Cm 0), left_indent := Some (Cm hanging_cm),
                     line_spacing := Some spacing, space_after := Some (Pt between_pts),
                     alignment := Some JUSTIFY\<rparr>\<rparr>"

text \<open>
  The loop of \<open>apply_references_block_format\<close>: the first statement updates the flag and
  strips the token, the second one styles when the flag is set or the text read at the
  start held the close token.
\<close>

fun arbf_loop :: "rat \<Rightarrow> rat \<Rightarrow> rat \<Rightarrow> bool \<Rightarrow> nat \<Rightarrow> block list \<Rightarrow> block list \<times> nat" where
  "arbf_loop h ls sp in_refs count [] = ([], count)"
| "arbf_loop h ls sp in_refs count (P p # bs) =
     (let t = para_text p;
          in_refs' = (if contains OPEN_REFS t then True
                      else if contains CLOSE_REFS t then False else in_refs);
          p1 = (if contains OPEN_REFS t then set_para_text p (str_replace OPEN_REFS [] t)
                else if contains CLOSE_REFS t then set_para_text p (str_replace CLOSE_REFS [] t)
                else p)
      in if in_refs' \<or> contains CLOSE_REFS t
         then (case arbf_loop h ls sp in_refs' (count + 1) bs of
                 (bs', n) \<Rightarrow> (P (refs_style h ls sp p1) # bs', n))
         else (case arbf_loop h ls sp in_refs' count bs of
                 (bs', n) \<Rightarrow> (P p1 # bs', n)))"
| "arbf_loop h ls sp in_refs count (Tbl t # bs) =
     (case arbf_loop h ls sp in_refs count bs of (bs', n) \<Rightarrow> (Tbl t # bs', n))"
| "arbf_loop h ls sp in_refs count (Other x # bs) =
     (case arbf_loop h ls sp in_refs count bs of (bs', n) \<Rightarrow> (Other x # bs', n))"

definition apply_references_block_format ::
  "document \<Rightarrow> rat \<Rightarrow> rat \<Rightarrow> rat \<Rightarrow> document \<times> nat" where
  "apply_references_block_format doc first_line_hanging_cm spacing space_between_pts =
     (case arbf_loop first_line_hanging_cm spacing space_between_pts False 0 (body doc) of
        (bs, n) \<Rightarrow> (doc\<lparr>body := bs\<rparr>, n))"

section \<open>Whole-document property passes\<close>

definition set_page_margins :: "document \<Rightarrow> rat \<Rightarrow> rat \<Rightarrow> rat \<Rightarrow> rat \<Rightarrow> document" where
  "set_page_margins doc top_cm left_cm right_cm bottom_cm =
     doc\<lparr>sections :=
           map (\<lambda>s. s\<lparr>top_margin := Some (Cm top_cm), left_margin := Some (Cm left_cm),
                       right_margin := Some (Cm right_cm), bottom_margin := Some (Cm bottom_cm)\<rparr>)
               (sections doc)\<rparr>"

text \<open>\<open>doc.styles["Normal"]\<close> raises KeyError when the registry has no such style.\<close>

definition configure_default_style ::
  "document \<Rightarrow> string \<Rightarrow> rat \<Rightarrow> rat \<Rightarrow> rat \<Rightarrow> error + document" where
  "configure_default_style doc name size_pt spacing indent_cm =
     (case styles doc ''Normal'' of
        None \<Rightarrow> Inl KeyError
      | Some normal \<Rightarrow>
          Inr (doc\<lparr>styles := (styles doc)(''Normal'' \<mapsto>
                 normal\<lparr>font_name := Some name, font_size := Some (Pt size_pt),
                        style_pf := (style_pf normal)\<lparr>line_spacing := Some spacing,
                           space_before := Some (Pt 0), space_after := Some (Pt 0),
                           first_line_indent := Some (Cm indent_cm)\<rparr>\<rparr>)\<rparr>))"

text \<open>\<open>str.lower\<close> and \<open>str.upper\<close> on the code points below 256 whose image is below 256 too.\<close>

definition lower_char :: "char \<Rightarrow> char" where
  "lower_char c =
     (let n = of_char c :: nat
      in if (65 \<le> n \<and> n \<le> 90) \<or> (192 \<le> n \<and> n \<le> 222 \<and> n \<noteq> 215) then char_of (n + 32) else c)"

definition upper_char :: "char \<Rightarrow> string" where
  "upper_char c =
     (let n = of_char c :: nat
      in if (97 \<le> n \<and> n \<le> 122) \<or> (224 \<le> n \<and> n \<le> 254 \<and> n \<noteq> 247) then [char_of (n - 32)]
         else if n = 223 then ''SS'' else [c])"

definition str_lower :: "string \<Rightarrow> string" where
  "str_lower s = map lower_char s"

definition str_upper :: "string \<Rightarrow> string" where
  "str_upper s = concat (map upper_char s)"

text \<open>\<open>p.style and p.style.name.lower().startswith("heading")\<close>\<close>

definition is_heading :: "(string \<rightharpoonup> pstyle) \<Rightarrow> string option \<Rightarrow> para \<Rightarrow> bool" where
  "is_heading sty dflt p =
     (case style_name sty dflt p of None \<Rightarrow> False | Some n \<Rightarrow> prefix ''heading'' (str_lower n))"

definition style_paragraph :: "(string \<rightharpoonup> pstyle) \<Rightarrow> string option \<Rightarrow> bool \<Rightarrow> rat \<Rightarrow> para \<Rightarrow> para" where
  "style_paragraph sty dflt just indent_cm p =
     (if is_heading sty dflt p then
        p\<lparr>pf := (pf p)\<lparr>alignment := Some LEFT, first_line_indent := Some (Cm 0),
                        space_before := Some (Pt 0), space_after := Some (Pt 0)\<rparr>\<rparr>
      else
        p\<lparr>pf := (pf p)\<lparr>alignment := (if just then Some JUSTIFY else alignment (pf p)),
                        first_line_indent := Some (Cm indent_cm),
                        space_before := Some (Pt 0), space_after := Some (Pt 0)\<rparr>\<rparr>)"

text \<open>A pass that rewrites every paragraph of \<open>doc.paragraphs\<close> in place.\<close>

fun map_paragraphs :: "(para \<Rightarrow> para) \<Rightarrow> block list \<Rightarrow> block list" where
  "map_paragraphs f [] = []"
| "map_paragraphs f (P p # bs) = P (f p) # map_paragraphs f bs"
| "map_paragraphs f (b # bs) = b # map_paragraphs f bs"

definition style_all_paragraphs :: "document \<Rightarrow> bool \<Rightarrow> rat \<Rightarrow> document" where
  "style_all_paragraphs doc just indent_cm =
     doc\<lparr>body := map_paragraphs (style_paragraph (styles doc) (default_style doc) just indent_cm)
                     (body doc)\<rparr>"

definition uppercase_heading_runs :: "para \<Rightarrow> para" where
  "uppercase_heading_runs p = p\<lparr>runs := map (\<lambda>r. set_run_text (str_upper (run_text r))) (runs p)\<rparr>"

definition heading_caps :: "bool \<Rightarrow> bool \<Rightarrow> bool \<Rightarrow> string \<Rightarrow> bool" where
  "heading_caps h1 h2 h3 name =
     (if name = ''Heading 1'' then h1 else if name = ''Heading 2'' then h2
      else if name = ''Heading 3'' then h3 else False)"

definition configure_heading_styles :: "document \<Rightarrow> bool \<Rightarrow> bool \<Rightarrow> bool \<Rightarrow> document" where
  "configure_heading_styles doc h1 h2 h3 =
     doc\<lparr>body := map_paragraphs
        (\<lambda>p. let name = (case style_name (styles doc) (default_style doc) p of
                            None \<Rightarrow> [] | Some n \<Rightarrow> n)
              in if heading_caps h1 h2 h3 name then
                   (uppercase_heading_runs p)\<lparr>pf := (pf p)\<lparr>alignment := Some LEFT,
                                                    first_line_indent := Some (Cm 0)\<rparr>\<rparr>
                 else p)
        (body doc)\<rparr>"

definition center_paragraphs_with_drawings :: "document \<Rightarrow> document" where
  "center_paragraphs_with_drawings doc =
     doc\<lparr>body := map_paragraphs
        (\<lambda>p. if has_drawing p
              then p\<lparr>pf := (pf p)\<lparr>alignment := Some CENTER, first_line_indent := Some (Cm 0)\<rparr>\<rparr>
              else p)
        (body doc)\<rparr>"

section \<open>Page numbers in the footer\<close>

definition empty_format :: paragraph_format where
  "empty_format = \<lparr>alignment = None, first_line_indent = None, left_indent = None,
      right_indent = None, line_spacing = None, space_before = None, space_after = None\<rparr>"

definition page_field :: run where
  "page_field = [WFldChar ''begin'', WInstrText '' PAGE '', WFldChar ''separate'', WFldChar ''end'']"

definition footer_alignment :: "string \<Rightarrow> alignment" where
  "footer_alignment position =
     (if position = ''center'' then CENTER else if position = ''left'' then LEFT else RIGHT)"

text \<open>
  The first paragraph of the footer (a new one when the footer has none) gets the
  alignment and one more run, which holds the PAGE field.
\<close>

definition number_footer :: "string \<Rightarrow> para list \<Rightarrow> para list" where
  "number_footer position ps =
     (let ps1 = (if length ps = 0 then [\<lparr>runs = [], pStyle = None, pf = empty_format\<rparr>] else ps);
          para = hd ps1
      in para\<lparr>pf := (pf para)\<lparr>alignment := Some (footer_alignment position)\<rparr>,
              runs := runs para @ [page_field]\<rparr> # tl ps1)"

text \<open>
  \<open>section.footer\<close> of a section linked to the previous one is the footer of the nearest
  earlier section that has a definition; when no section up to this one has any, the
  library adds a definition to the first section: one empty paragraph of style Footer.
\<close>

fun footer_owner :: "doc_section list \<Rightarrow> nat \<Rightarrow> nat option" where
  "footer_owner ss 0 = (case footer (ss ! 0) of None \<Rightarrow> None | Some ps \<Rightarrow> Some 0)"
| "footer_owner ss (Suc k) =
     (case footer (ss ! Suc k) of None \<Rightarrow> footer_owner ss k | Some ps \<Rightarrow> Some (Suc k))"

definition default_footer :: "para list" where
  "default_footer = [\<lparr>runs = [], pStyle = Some ''Footer'', pf = empty_format\<rparr>]"

definition number_section :: "string \<Rightarrow> nat \<Rightarrow> doc_section list \<Rightarrow> doc_section list" where
  "number_section position k ss =
     (let j = (case footer_owner ss k of None \<Rightarrow> 0 | Some j \<Rightarrow> j);
          ps = (case footer (ss ! j) of None \<Rightarrow> default_footer | Some ps \<Rightarrow> ps)
      in ss[j := (ss ! j)\<lparr>footer := Some (number_footer position ps)\<rparr>])"

definition add_page_number_to_footer :: "document \<Rightarrow> string \<Rightarrow> document" where
  "add_page_number_to_footer doc position =
     doc\<lparr>sections := fold (number_section position) [0..<length (sections doc)] (sections doc)\<rparr>"

section \<open>Blank paragraphs\<close>

text \<open>
  \<open>p.getparent().remove(p)\<close> for the paragraph at position \<open>n\<close> of \<open>doc.paragraphs\<close>: that
  child leaves the body, every other child stays.
\<close>

fun remove_paragraph :: "nat \<Rightarrow> block list \<Rightarrow> block list" where
  "remove_paragraph n [] = []"
| "remove_paragraph n (P p # bs) = (case n of 0 \<Rightarrow> bs | Suc m \<Rightarrow> P p # remove_paragraph m bs)"
| "remove_paragraph n (b # bs) = b # remove_paragraph n bs"

definition blank_para :: "para \<Rightarrow> bool" where
  "blank_para p = is_blank (para_text p)"

text \<open>
  The loop of \<open>remove_extra_blank_lines\<close>; \<open>doc.paragraphs\<close> is read again at every test.
  \<open>i < len(doc.paragraphs) - 1\<close> is over Python's integers, hence \<open>i + 1 < len\<close> here.
\<close>

function rebl_loop :: "nat \<Rightarrow> block list \<Rightarrow> block list" where
  "rebl_loop i bs =
     (if i + 1 < length (paragraphs bs) then
        (if blank_para (paragraphs bs ! i) \<and> blank_para (paragraphs bs ! (i + 1))
         then rebl_loop i (remove_paragraph (i + 1) bs)
         else rebl_loop (i + 1) bs)
      else bs)"
  by pat_completeness auto
termination
proof (relation "measure (\<lambda>(i, bs). length (paragraphs bs) - i)")
  have shorter: "length (paragraphs (remove_paragraph n bs)) = length (paragraphs bs) - 1"
    if "n < length (paragraphs bs)" for n bs
    using that
  proof (induction n bs rule: remove_paragraph.induct)
    case (2 n p bs)
    then show ?case by (cases n) auto
  qed auto
  show "((i, remove_paragraph (i + 1) bs), (i, bs))
          \<in> measure (\<lambda>(i, bs). length (paragraphs bs) - i)"
    if "i + 1 < length (paragraphs bs)" for i bs
    using that shorter[of "i + 1" bs] by simp
qed auto

declare rebl_loop.simps [simp del]

definition remove_extra_blank_lines :: "document \<Rightarrow> document" where
  "remove_extra_blank_lines doc = doc\<lparr>body := rebl_loop 0 (body doc)\<rparr>"

section \<open>Tables\<close>

text \<open>\<open>_set_row_cant_split\<close>: \<open>get_or_add_trPr\<close>, then a new \<open>w:cantSplit\<close> is appended.\<close>

definition get_or_add_trPr :: "row \<Rightarrow> trPr_child list" where
  "get_or_add_trPr r = (case trPr r of None \<Rightarrow> [] | Some cs \<Rightarrow> cs)"

definition set_row_cant_split :: "row \<Rightarrow> row" where
  "set_row_cant_split r = r\<lparr>trPr := Some (get_or_add_trPr r @ [CantSplit])\<rparr>"

fun harden_rows :: "nat \<Rightarrow> row list \<Rightarrow> row list" where
  "harden_rows i [] = []"
| "harden_rows i (r # rs) =
     (let r1 = set_row_cant_split r;
          r2 = (if i = 0 then r1\<lparr>trPr := Some (get_or_add_trPr r1 @ [TblHeader])\<rparr> else r1)
      in r2 # harden_rows (i + 1) rs)"

text \<open>
  After the rows, the source sets the table layout inside \<open>try ... except Exception: pass\<close>.
  That step reads and writes the table's own properties only, which this record does not
  hold, and no exception leaves it.
\<close>

definition prevent_table_row_split_and_repeat_header :: "table \<Rightarrow> table" where
  "prevent_table_row_split_and_repeat_header t = t\<lparr>rows := harden_rows 0 (rows t)\<rparr>"

section \<open>Captions\<close>

fun str_of_nat :: "nat \<Rightarrow> string" where
  "str_of_nat n =
     (if n < 10 then [char_of (48 + n)] else str_of_nat (n div 10) @ [char_of (48 + n mod 10)])"

text \<open>The placeholder texts, with the dash and the accented letters of the source in ASCII.\<close>

definition fig_caption :: "nat \<Rightarrow> string" where
  "fig_caption n = ''Figura '' @ str_of_nat n @ '' - Descricao da figura''"

definition tab_caption :: "nat \<Rightarrow> string" where
  "tab_caption n = ''Tabela '' @ str_of_nat n @ '' - Titulo da tabela''"

definition source_caption :: string where
  "source_caption = ''Fonte: elaboracao propria.''"

text \<open>
  \<open>p.insert_paragraph_after(text)\<close>: the library's \<open>Paragraph\<close> has \<open>insert_paragraph_before\<close>
  and no \<open>insert_paragraph_after\<close>, so the attribute lookup raises AttributeError.
  The lines of \<open>add_caption_after_paragraph\<close> after that call are kept as they are
  written; \<open>italic\<close> is False at its only call, and runs carry no such property here.
\<close>

definition insert_paragraph_after :: "para \<Rightarrow> string \<Rightarrow> error + para" where
  "insert_paragraph_after p txt = Inl AttributeError"

definition add_caption_after_paragraph :: "para \<Rightarrow> string \<Rightarrow> bool \<Rightarrow> error + para" where
  "add_caption_after_paragraph p txt italic =
     (case insert_paragraph_after p txt of
        Inl e \<Rightarrow> Inl e
      | Inr cap \<Rightarrow>
          Inr (cap\<lparr>pf := (pf cap)\<lparr>alignment := Some CENTER, first_line_indent := Some (Cm 0)\<rparr>\<rparr>))"

text \<open>
  \<open>first_p._element.__class__('w:p')\<close> calls the element class of a paragraph with one
  string: lxml builds an element whose tag is the class name, \<open>CT_P\<close>, with that string as
  its text. It is not a \<open>w:p\<close>, so \<open>doc.paragraphs\<close> never lists it.
\<close>

definition new_element_of_class :: "para \<Rightarrow> block" where
  "new_element_of_class first_p = Other ''CT_P''"

text \<open>
  The search \<open>for pp in doc.paragraphs: if pp._p is new_p: ...\<close> for an element just put
  in the body: it finds the paragraph when the element is one.
\<close>

fun find_paragraph :: "block \<Rightarrow> para option" where
  "find_paragraph (P p) = Some p"
| "find_paragraph b = None"

definition add_run :: "para \<Rightarrow> string \<Rightarrow> para" where
  "add_run p txt = p\<lparr>runs := runs p @ [set_run_text txt]\<rparr>"

definition caption_above :: "block \<Rightarrow> nat \<Rightarrow> block" where
  "caption_above new_p tab_n =
     (case find_paragraph new_p of
        None \<Rightarrow> new_p
      | Some pp \<Rightarrow>
          P (add_run (pp\<lparr>pf := (pf pp)\<lparr>alignment := Some CENTER, first_line_indent := Some (Cm 0)\<rparr>\<rparr>)
                     (tab_caption (tab_n + 1))))"

definition caption_below :: "block \<Rightarrow> block" where
  "caption_below new_p =
     (case find_paragraph new_p of
        None \<Rightarrow> new_p
      | Some pp \<Rightarrow>
          P (add_run (pp\<lparr>pf := (pf pp)\<lparr>alignment := Some LEFT, first_line_indent := Some (Cm 0)\<rparr>\<rparr>)
                     source_caption))"

text \<open>
  The walk of \<open>ensure_captions\<close> over \<open>doc.element.body\<close>. lxml's child iterator fetches
  the next sibling before it hands out the current child, so the walk goes through the
  children present at the start: \<open>done\<close> is the part of the body already behind the
  walk (with what was put there), the last argument the part still ahead.
  \<open>doc.paragraphs[0]\<close> is read from the whole body and raises IndexError when the body
  has no paragraph.
\<close>

fun ensure_walk ::
  "bool \<Rightarrow> bool \<Rightarrow> nat \<Rightarrow> nat \<Rightarrow> block list \<Rightarrow> block list \<Rightarrow> error + block list" where
  "ensure_walk fig tab fig_n tab_n done [] = Inr done"
| "ensure_walk fig tab fig_n tab_n done (P p # rest) =
     (if has_drawing p then
        (if fig then
           (case add_caption_after_paragraph p (fig_caption (fig_n + 1)) False of
              Inl e \<Rightarrow> Inl e
            | Inr cap \<Rightarrow> ensure_walk fig tab (fig_n + 1) tab_n (done @ [P p, P cap]) rest)
         else ensure_walk fig tab fig_n tab_n (done @ [P p]) rest)
      else ensure_walk fig tab fig_n tab_n (done @ [P p]) rest)"
| "ensure_walk fig tab fig_n tab_n done (Tbl t # rest) =
     (let t' = prevent_table_row_split_and_repeat_header t in
      if tab then
        (case paragraphs (done @ Tbl t' # rest) of
           [] \<Rightarrow> Inl IndexError
         | first_p # ps \<Rightarrow>
             ensure_walk fig tab fig_n (tab_n + 1)
               (done @ [caption_above (new_element_of_class first_p) tab_n, Tbl t',
                        caption_below (new_element_of_class first_p)])
               rest)
      else ensure_walk fig tab fig_n tab_n (done @ [Tbl t']) rest)"
| "ensure_walk fig tab fig_n tab_n done (Other x # rest) =
     ensure_walk fig tab fig_n tab_n (done @ [Other x]) rest"

definition ensure_captions :: "document \<Rightarrow> bool \<Rightarrow> bool \<Rightarrow> error + document" where
  "ensure_captions doc add_fig_captions add_tab_captions =
     (case ensure_walk add_fig_captions add_tab_captions 0 0 [] (body doc) of
        Inl e \<Rightarrow> Inl e
      | Inr bs \<Rightarrow> Inr (doc\<lparr>body := bs\<rparr>))"

section \<open>The pipeline\<close>

record config =
  h1_caps :: bool
  h2_caps :: bool
  h3_caps :: bool
  justify :: bool
  footer_page_numbers :: bool
  first_line_indent_cm :: rat
  center_images :: bool
  auto_captions_fig :: bool
  auto_captions_tab :: bool
  format_refs_block :: bool

fun map_tables :: "(table \<Rightarrow> table) \<Rightarrow> block list \<Rightarrow> block list" where
  "map_tables f [] = []"
| "map_tables f (Tbl t # bs) = Tbl (f t) # map_tables f bs"
| "map_tables f (b # bs) = b # map_tables f bs"

definition apply_abnt_formatting :: "document \<Rightarrow> config \<Rightarrow> error + document" where
  "apply_abnt_formatting doc cfg =
     (case configure_default_style (set_page_margins doc 3 3 2 2) ''Times New Roman'' 12 (3 / 2)
             (first_line_indent_cm cfg) of
        Inl e \<Rightarrow> Inl e
      | Inr d2 \<Rightarrow>
         (let d3 = style_all_paragraphs d2 (justify cfg) (first_line_indent_cm cfg);
              d4 = configure_heading_styles d3 (h1_caps cfg) (h2_caps cfg) (h3_caps cfg);
              d5 = (if center_images cfg then center_paragraphs_with_drawings d4 else d4);
              d6 = d5\<lparr>body := map_tables prevent_table_row_split_and_repeat_header (body d5)\<rparr>
          in (case ensure_captions d6 (auto_captions_fig cfg) (auto_captions_tab cfg) of
                Inl e \<Rightarrow> Inl e
              | Inr d7 \<Rightarrow>
                 (case process_long_quote_markers d7 of
                    Inl e \<Rightarrow> Inl e
                  | Inr (d8, n) \<Rightarrow>
                     (let d9 = (if format_refs_block cfg
                                then fst (apply_references_block_format d8 (5 / 4) 1 6) else d8);
                          d10 = (if footer_page_numbers cfg
                                 then add_page_number_to_footer d9 ''right'' else d9)
                      in Inr (remove_extra_blank_lines d10))))))"

section \<open>Observations and sample documents\<close>

text \<open>A row property is set when the row's \<open>w:trPr\<close> holds the element.\<close>

definition repeats_header :: "row \<Rightarrow> bool" where
  "repeats_header r = (TblHeader \<in> set (get_or_add_trPr r))"

definition cant_split :: "row \<Rightarrow> bool" where
  "cant_split r = (CantSplit \<in> set (get_or_add_trPr r))"

text \<open>A table whose second row is marked as a repeated header row in the input.\<close>

definition two_header_rows :: table where
  "two_header_rows =
     \<lparr>rows = [\<lparr>trPr = None, cells = [''a'']\<rparr>, \<lparr>trPr = Some [TblHeader], cells = [''b'']\<rparr>]\<rparr>"

text \<open>Hardening a table twice, and the number of children of one kind in a row's \<open>w:trPr\<close>.\<close>

definition harden_twice :: "table \<Rightarrow> table" where
  "harden_twice t =
     prevent_table_row_split_and_repeat_header (prevent_table_row_split_and_repeat_header t)"

definition count_prop :: "trPr_child \<Rightarrow> row \<Rightarrow> nat" where
  "count_prop c r = count_list (get_or_add_trPr r) c"

definition prop_counts :: "trPr_child \<Rightarrow> document \<Rightarrow> nat list list" where
  "prop_counts c d = map (\<lambda>t. map (count_prop c) (rows t)) (tables (body d))"

text \<open>Sample inputs: a style with nothing set, a paragraph of plain text, the options the
  user interface starts with, and two documents with one table each.\<close>

definition plain_style :: pstyle where
  "plain_style = \<lparr>font_name = None, font_size = None, style_pf = empty_format\<rparr>"

definition text_para :: "string \<Rightarrow> para" where
  "text_para s = \<lparr>runs = [[WT s]], pStyle = None, pf = empty_format\<rparr>"

definition ui_defaults :: config where
  "ui_defaults = \<lparr>h1_caps = True, h2_caps = True, h3_caps = True, justify = True,
     footer_page_numbers = True, first_line_indent_cm = 5 / 4, center_images = True,
     auto_captions_fig = False, auto_captions_tab = False, format_refs_block = True\<rparr>"

definition doc_presplit :: document where
  "doc_presplit =
     \<lparr>sections = [], styles = [''Normal'' \<mapsto> plain_style], default_style = Some ''Normal'',
      body = [P (text_para ''abc''),
              Tbl \<lparr>rows = [\<lparr>trPr = Some [CantSplit], cells = [''x'']\<rparr>]\<rparr>]\<rparr>"

definition doc_fresh_table :: document where
  "doc_fresh_table =
     \<lparr>sections = [], styles = [''Normal'' \<mapsto> plain_style], default_style = Some ''Normal'',
      body = [P (text_para ''abc''),
              Tbl \<lparr>rows = [\<lparr>trPr = None, cells = [''x'']\<rparr>, \<lparr>trPr = None, cells = [''y'']\<rparr>]\<rparr>]\<rparr>"

text \<open>The three whole-document property passes, in the order of the pipeline.\<close>

definition property_passes ::
  "document \<Rightarrow> rat \<Rightarrow> rat \<Rightarrow> rat \<Rightarrow> rat \<Rightarrow> string \<Rightarrow> rat \<Rightarrow> rat \<Rightarrow> rat \<Rightarrow> bool \<Rightarrow> rat
     \<Rightarrow> error + document" where
  "property_passes doc top_cm left_cm right_cm bottom_cm name size_pt spacing indent_cm just
       para_indent_cm =
     (case configure_default_style (set_page_margins doc top_cm left_cm right_cm bottom_cm)
             name size_pt spacing indent_cm of
        Inl e \<Rightarrow> Inl e
      | Inr d \<Rightarrow> Inr (style_all_paragraphs d just para_indent_cm))"

definition doc_heading_and_text :: document where
  "doc_heading_and_text =
     \<lparr>sections = [\<lparr>top_margin = None, left_margin = Some 5, right_margin = None,
                    bottom_margin = None, footer = None\<rparr>],
      styles = [''Normal'' \<mapsto> plain_style, ''Heading 1'' \<mapsto> plain_style],
      default_style = Some ''Normal'',
      body = [P ((text_para ''Title'')\<lparr>pStyle := Some ''Heading 1''\<rparr>), P (text_para ''abc'')]\<rparr>"

text \<open>
  A one-pass description of what the blank-paragraph loop leaves, proved equal to the
  loop below (\<open>rebl_loop_collapse\<close>): a blank paragraph goes when the paragraph before it
  in \<open>doc.paragraphs\<close> is blank. \<open>prev\<close> tells whether that paragraph is blank;
  \<open>ends_blank\<close> is its value after a stretch of the body.
\<close>

fun collapse_blocks :: "bool \<Rightarrow> block list \<Rightarrow> block list" where
  "collapse_blocks prev [] = []"
| "collapse_blocks prev (P p # bs) =
     (if prev \<and> blank_para p then collapse_blocks True bs
      else P p # collapse_blocks (blank_para p) bs)"
| "collapse_blocks prev (Tbl t # bs) = Tbl t # collapse_blocks prev bs"
| "collapse_blocks prev (Other x # bs) = Other x # collapse_blocks prev bs"

fun ends_blank :: "bool \<Rightarrow> block list \<Rightarrow> bool" where
  "ends_blank prev [] = prev"
| "ends_blank prev (P p # bs) = ends_blank (blank_para p) bs"
| "ends_blank prev (Tbl t # bs) = ends_blank prev bs"
| "ends_blank prev (Other x # bs) = ends_blank prev bs"

text \<open>Sample inputs: a paragraph that holds a picture and no text, and two documents.\<close>

definition image_para :: para where
  "image_para = \<lparr>runs = [[WDrawing]], pStyle = None, pf = empty_format\<rparr>"

definition doc_blank_run :: document where
  "doc_blank_run =
     \<lparr>sections = [], styles = [''Normal'' \<mapsto> plain_style], default_style = Some ''Normal'',
      body = [P (text_para ''a''), P (text_para ''''), Tbl \<lparr>rows = []\<rparr>, P (text_para '' ''),
              P image_para, P (text_para ''b'')]\<rparr>"

definition doc_blank_then_image :: document where
  "doc_blank_then_image =
     \<lparr>sections = [], styles = [''Normal'' \<mapsto> plain_style], default_style = Some ''Normal'',
      body = [P (text_para ''a''), P (text_para '' ''), P image_para, P (text_para ''b'')]\<rparr>"

text \<open>
  What it means for a paragraph to carry a region style. The long-quotation style is five
  properties of the paragraph's own format and the font size of 10 pt, which the source
  writes to, and which is read from, the style the paragraph resolves to.
\<close>

definition lq_format :: "para \<Rightarrow> bool" where
  "lq_format p =
     (first_line_indent (pf p) = Some (Cm 0) \<and> left_indent (pf p) = Some (Cm 4) \<and>
      right_indent (pf p) = Some (Cm 0) \<and> line_spacing (pf p) = Some 1 \<and>
      alignment (pf p) = Some JUSTIFY)"

definition carries_long_quote_style :: "(string \<rightharpoonup> pstyle) \<Rightarrow> string option \<Rightarrow> para \<Rightarrow> bool" where
  "carries_long_quote_style sty dflt p =
     (lq_format p \<and> style_font_size sty dflt p = Some (Pt 10))"

definition carries_refs_style :: "rat \<Rightarrow> rat \<Rightarrow> rat \<Rightarrow> para \<Rightarrow> bool" where
  "carries_refs_style hanging_cm spacing between_pts p =
     (first_line_indent (pf p) = Some (Cm 0) \<and> left_indent (pf p) = Some (Cm hanging_cm) \<and>
      line_spacing (pf p) = Some spacing \<and> space_after (pf p) = Some (Pt between_pts) \<and>
      alignment (pf p) = Some JUSTIFY)"

text \<open>
  The loop body of \<open>process_long_quote_markers\<close> for one paragraph, and the flag after
  it; \<open>plqm_loop_P\<close> below shows that the loop is this step followed by the rest.
  \<open>lq_flag\<close> is the flag after a stretch of the body.
\<close>

definition lq_next :: "bool \<Rightarrow> para \<Rightarrow> bool" where
  "lq_next in_block p =
     (if contains OPEN_LQ (para_text p) then True
      else if contains CLOSE_LQ (para_text p) then False else in_block)"

fun lq_flag :: "bool \<Rightarrow> block list \<Rightarrow> bool" where
  "lq_flag in_block [] = in_block"
| "lq_flag in_block (P p # bs) = lq_flag (lq_next in_block p) bs"
| "lq_flag in_block (Tbl t # bs) = lq_flag in_block bs"
| "lq_flag in_block (Other x # bs) = lq_flag in_block bs"

definition lq_step ::
  "bool \<Rightarrow> nat \<Rightarrow> (string \<rightharpoonup> pstyle) \<Rightarrow> string option \<Rightarrow> para
     \<Rightarrow> error + (para \<times> (string \<rightharpoonup> pstyle) \<times> nat)" where
  "lq_step in_block changed sty dflt p =
     (if contains OPEN_LQ (para_text p) then
        (case apply_long_quote_style sty dflt
                (set_para_text p (str_replace OPEN_LQ [] (para_text p))) of
           Inl e \<Rightarrow> Inl e
         | Inr (p', sty') \<Rightarrow> Inr (p', sty', changed + 1))
      else if contains CLOSE_LQ (para_text p) then
        (case apply_long_quote_style sty dflt
                (set_para_text p (str_replace CLOSE_LQ [] (para_text p))) of
           Inl e \<Rightarrow> Inl e
         | Inr (p', sty') \<Rightarrow> Inr (p', sty', changed + 1))
      else if in_block then
        (case apply_long_quote_style sty dflt p of
           Inl e \<Rightarrow> Inl e
         | Inr (p', sty') \<Rightarrow> Inr (p', sty', changed + 1))
      else Inr (p, sty, changed))"

text \<open>
  How the style registry can differ after the pass: the same names, and each style as it
  was or with the font size set to 10 pt.
\<close>

definition sty_ext :: "(string \<rightharpoonup> pstyle) \<Rightarrow> (string \<rightharpoonup> pstyle) \<Rightarrow> bool" where
  "sty_ext sty sty' =
     (\<forall>n. case sty n of
            None \<Rightarrow> sty' n = None
          | Some s \<Rightarrow> sty' n = Some s \<or> sty' n = Some (s\<lparr>font_size := Some (Pt 10)\<rparr>))"

text \<open>The same for \<open>apply_references_block_format\<close>.\<close>

definition refs_next :: "bool \<Rightarrow> para \<Rightarrow> bool" where
  "refs_next in_refs p =
     (if contains OPEN_REFS (para_text p) then True
      else if contains CLOSE_REFS (para_text p) then False else in_refs)"

definition refs_para :: "rat \<Rightarrow> rat \<Rightarrow> rat \<Rightarrow> bool \<Rightarrow> para \<Rightarrow> para" where
  "refs_para h ls sp in_refs p =
     (let p1 = (if contains OPEN_REFS (para_text p)
                then set_para_text p (str_replace OPEN_REFS [] (para_text p))
                else if contains CLOSE_REFS (para_text p)
                then set_para_text p (str_replace CLOSE_REFS [] (para_text p))
                else p)
      in if refs_next in_refs p \<or> contains CLOSE_REFS (para_text p)
         then refs_style h ls sp p1 else p1)"

fun refs_flag :: "bool \<Rightarrow> block list \<Rightarrow> bool" where
  "refs_flag in_refs [] = in_refs"
| "refs_flag in_refs (P p # bs) = refs_flag (refs_next in_refs p) bs"
| "refs_flag in_refs (Tbl t # bs) = refs_flag in_refs bs"
| "refs_flag in_refs (Other x # bs) = refs_flag in_refs bs"

definition no_close_lq :: "para \<Rightarrow> bool" where
  "no_close_lq q = (\<not> contains CLOSE_LQ (para_text q))"

definition no_close_refs :: "para \<Rightarrow> bool" where
  "no_close_refs q = (\<not> contains CLOSE_REFS (para_text q))"

text \<open>Sample documents for the marker passes and for the captions.\<close>

definition doc_unclosed_quote :: document where
  "doc_unclosed_quote =
     \<lparr>sections = [], styles = [''Normal'' \<mapsto> plain_style], default_style = Some ''Normal'',
      body = [P (text_para ''intro''), P (text_para ''[[CITACAO_LONGA]]quoted''),
              Tbl \<lparr>rows = []\<rparr>, P (text_para ''more'')]\<rparr>"

definition doc_unclosed_refs :: document where
  "doc_unclosed_refs =
     \<lparr>sections = [], styles = [''Normal'' \<mapsto> plain_style], default_style = Some ''Normal'',
      body = [P (text_para ''text''), P (text_para ''[[REFERENCIAS]]SILVA, J.''),
              P (text_para ''PEREIRA, M.'')]\<rparr>"

definition doc_open_and_close :: document where
  "doc_open_and_close =
     \<lparr>sections = [], styles = [''Normal'' \<mapsto> plain_style], default_style = Some ''Normal'',
      body = [P (text_para ''a''), P (text_para ''[[CITACAO_LONGA]]q[[/CITACAO_LONGA]]''),
              P (text_para ''after''), P (text_para ''end[[/CITACAO_LONGA]]''),
              P (text_para ''z'')]\<rparr>"

definition normal_12pt :: pstyle where
  "normal_12pt = \<lparr>font_name = Some ''Times New Roman'', font_size = Some (Pt 12),
     style_pf = empty_format\<rparr>"

definition doc_region :: document where
  "doc_region =
     \<lparr>sections = [], styles = [''Normal'' \<mapsto> normal_12pt], default_style = Some ''Normal'',
      body = [P (text_para ''A''), P (text_para ''[[CITACAO_LONGA]]text1''),
              P (text_para ''mid''), P (text_para ''text2[[/CITACAO_LONGA]]''),
              P (text_para ''B'')]\<rparr>"

definition doc_close_first :: document where
  "doc_close_first =
     \<lparr>sections = [], styles = [''Normal'' \<mapsto> normal_12pt], default_style = Some ''Normal'',
      body = [P (text_para ''x[[/CITACAO_LONGA]]''), P (text_para ''ordinary'')]\<rparr>"

definition doc_table_only :: document where
  "doc_table_only =
     \<lparr>sections = [], styles = [''Normal'' \<mapsto> normal_12pt], default_style = Some ''Normal'',
      body = [Tbl \<lparr>rows = [\<lparr>trPr = None, cells = [''x'']\<rparr>]\<rparr>, Other ''sectPr'']\<rparr>"

definition doc_one_image :: document where
  "doc_one_image =
     \<lparr>sections = [], styles = [''Normal'' \<mapsto> normal_12pt], default_style = Some ''Normal'',
      body = [P image_para, Other ''sectPr'']\<rparr>"

definition doc_text_and_table :: document where
  "doc_text_and_table =
     \<lparr>sections = [], styles = [''Normal'' \<mapsto> normal_12pt], default_style = Some ''Normal'',
      body = [P (text_para ''abc''), Tbl \<lparr>rows = []\<rparr>, Other ''sectPr'']\<rparr>"

definition doc_close_first_refs :: document where
  "doc_close_first_refs =
     \<lparr>sections = [], styles = [''Normal'' \<mapsto> normal_12pt], default_style = Some ''Normal'',
      body = [P (text_para ''x[[/REFERENCIAS]]''), P (text_para ''ordinary'')]\<rparr>"

section \<open>Properties\<close>

subsection \<open>The substring test\<close>

text \<open>\<open>contains\<close> is the substring relation of the list library.\<close>

lemma contains_sublist: "contains tok tx = sublist tok tx"
  by (induction tx) (auto simp: sublist_Cons_right)

subsection \<open>Table hardening\<close>

lemma length_harden_rows: "length (harden_rows k rs) = length rs"
  by (induction rs arbitrary: k) (auto simp: Let_def)

lemma harden_rows_nth:
  "i < length rs \<Longrightarrow>
   harden_rows k rs ! i =
     (if k + i = 0
      then (set_row_cant_split (rs ! i))
             \<lparr>trPr := Some (get_or_add_trPr (set_row_cant_split (rs ! i)) @ [TblHeader])\<rparr>
      else set_row_cant_split (rs ! i))"
proof (induction rs arbitrary: k i)
  case Nil
  then show ?case by simp
next
  case (Cons r rs)
  show ?case
  proof (cases i)
    case 0
    then show ?thesis by (simp add: Let_def)
  next
    case (Suc j)
    with Cons.prems have "j < length rs" by simp
    from Cons.IH[OF this, of "k + 1"] Suc show ?thesis by (simp add: Let_def)
  qed
qed

text \<open>
  C3 as stated does not hold: the pass only appends elements, so a row after the
  first that is marked as a repeated header in the input is still marked after the pass.
\<close>

theorem header_repeat_counterexample:
  "1 \<le> length (rows two_header_rows) \<and>
   repeats_header (rows (prevent_table_row_split_and_repeat_header two_header_rows) ! 1)"
  by (simp add: two_header_rows_def prevent_table_row_split_and_repeat_header_def
      repeats_header_def get_or_add_trPr_def set_row_cant_split_def Let_def)

text \<open>
  C3, amended: for a table with at least one row, after
  \<open>prevent_table_row_split_and_repeat_header\<close> the table has the same number of rows,
  row 0 has the repeat-as-header property, every row has the cannot-split property, and
  each row after the first has the repeat-as-header property exactly when it had it
  before the pass.
\<close>

theorem header_repeat_after_hardening:
  "1 \<le> length (rows t) \<Longrightarrow>
   length (rows (prevent_table_row_split_and_repeat_header t)) = length (rows t) \<and>
   repeats_header (rows (prevent_table_row_split_and_repeat_header t) ! 0) \<and>
   (\<forall>i. i < length (rows t) \<longrightarrow>
      cant_split (rows (prevent_table_row_split_and_repeat_header t) ! i)) \<and>
   (\<forall>i. 1 \<le> i \<and> i < length (rows t) \<longrightarrow>
      repeats_header (rows (prevent_table_row_split_and_repeat_header t) ! i)
        = repeats_header (rows t ! i))"
proof -
  assume "1 \<le> length (rows t)"
  then have pos: "0 < length (rows t)" by (cases "rows t") auto
  have len: "length (rows (prevent_table_row_split_and_repeat_header t)) = length (rows t)"
    by (simp add: prevent_table_row_split_and_repeat_header_def length_harden_rows)
  have hdr: "repeats_header (rows (prevent_table_row_split_and_repeat_header t) ! 0)"
    using pos
    by (simp add: prevent_table_row_split_and_repeat_header_def harden_rows_nth repeats_header_def
        get_or_add_trPr_def)
  have split: "cant_split (rows (prevent_table_row_split_and_repeat_header t) ! i)"
    if "i < length (rows t)" for i
    using that
    by (simp add: prevent_table_row_split_and_repeat_header_def harden_rows_nth cant_split_def
        get_or_add_trPr_def set_row_cant_split_def)
  have rest: "repeats_header (rows (prevent_table_row_split_and_repeat_header t) ! i)
                = repeats_header (rows t ! i)"
    if "1 \<le> i" "i < length (rows t)" for i
    using that
    by (simp add: prevent_table_row_split_and_repeat_header_def harden_rows_nth repeats_header_def
        get_or_add_trPr_def set_row_cant_split_def)
  from len hdr split rest show ?thesis by blast
qed

theorem header_repeat_after_hardening_witness:
  "1 \<le> length (rows two_header_rows) \<and>
   repeats_header (rows (prevent_table_row_split_and_repeat_header two_header_rows) ! 0) \<and>
   cant_split (rows (prevent_table_row_split_and_repeat_header two_header_rows) ! 1) \<and>
   repeats_header (rows (prevent_table_row_split_and_repeat_header two_header_rows) ! 1)"
  using header_repeat_after_hardening[of two_header_rows]
  by (simp add: two_header_rows_def repeats_header_def get_or_add_trPr_def)

subsection \<open>What the passes do to the tables\<close>

lemma tables_append: "tables (xs @ ys) = tables xs @ tables ys"
  by (induction xs rule: tables.induct) auto

lemma tables_map_paragraphs: "tables (map_paragraphs f bs) = tables bs"
  by (induction f bs rule: map_paragraphs.induct) auto

lemma tables_map_tables: "tables (map_tables f bs) = map f (tables bs)"
  by (induction f bs rule: map_tables.induct) auto

lemma tables_remove_paragraph: "tables (remove_paragraph n bs) = tables bs"
proof (induction n bs rule: remove_paragraph.induct)
  case (2 n p bs)
  then show ?case by (cases n) auto
qed auto

lemma tables_rebl_loop: "tables (rebl_loop i bs) = tables bs"
proof (induction i bs rule: rebl_loop.induct)
  case (1 i bs)
  show ?case
    using "1.IH" by (subst rebl_loop.simps) (simp add: tables_remove_paragraph)
qed

lemma tables_arbf_loop: "tables (fst (arbf_loop h ls sp fl n bs)) = tables bs"
  by (induction h ls sp fl n bs rule: arbf_loop.induct) (auto simp: Let_def split: prod.splits)

lemma tables_cons_block:
  "cons_block b r = Inr (bs', s, n) \<Longrightarrow> \<exists>bs''. r = Inr (bs'', s, n) \<and> bs' = b # bs''"
  by (auto simp: cons_block_def split: sum.splits)

lemma tables_plqm_loop:
  "plqm_loop fl n sty dflt bs = Inr (bs', sty', n') \<Longrightarrow> tables bs' = tables bs"
proof (induction fl n sty dflt bs arbitrary: bs' sty' n' rule: plqm_loop.induct)
  case (1 in_block changed sty dflt)
  then show ?case by simp
next
  case (2 in_block changed sty dflt p bs)
  then show ?case
    by (auto split: if_splits sum.splits prod.splits dest!: tables_cons_block)
next
  case (3 in_block changed sty dflt t bs)
  then show ?case by (auto dest!: tables_cons_block)
next
  case (4 in_block changed sty dflt x bs)
  then show ?case by (auto dest!: tables_cons_block)
qed

lemma tables_ensure_walk:
  "ensure_walk fig tab fn tn done rest = Inr bs \<Longrightarrow>
   tables bs = tables done @ map prevent_table_row_split_and_repeat_header (tables rest)"
proof (induction fig tab fn tn "done" rest arbitrary: bs rule: ensure_walk.induct)
  case (1 fig tab fig_n tab_n "done")
  then show ?case by simp
next
  case (2 fig tab fig_n tab_n "done" p rest)
  then show ?case
    by (auto simp: tables_append add_caption_after_paragraph_def insert_paragraph_after_def
        split: if_splits sum.splits)
next
  case (3 fig tab fig_n tab_n "done" t rest)
  then show ?case
    by (auto simp: tables_append Let_def caption_above_def caption_below_def
        new_element_of_class_def split: if_splits list.splits)
next
  case (4 fig tab fig_n tab_n "done" x rest)
  then show ?case by (auto simp: tables_append)
qed

lemma tables_ensure_captions:
  "ensure_captions d fig tab = Inr d' \<Longrightarrow>
   tables (body d') = map prevent_table_row_split_and_repeat_header (tables (body d))"
  by (auto simp: ensure_captions_def split: sum.splits dest: tables_ensure_walk)

lemma tables_process_long_quote_markers:
  "process_long_quote_markers d = Inr (d', n) \<Longrightarrow> tables (body d') = tables (body d)"
  by (auto simp: process_long_quote_markers_def split: sum.splits prod.splits
      dest: tables_plqm_loop)

lemma tables_apply_references_block_format:
  "tables (body (fst (apply_references_block_format d h ls sp))) = tables (body d)"
  using tables_arbf_loop[of h ls sp False 0 "body d"]
  by (cases "arbf_loop h ls sp False 0 (body d)") (simp add: apply_references_block_format_def)

lemma body_configure_default_style:
  "configure_default_style d name sz ls ind = Inr d' \<Longrightarrow> body d' = body d"
  by (auto simp: configure_default_style_def split: option.splits)

lemma pipeline_tables:
  assumes "apply_abnt_formatting doc cfg = Inr doc'"
  shows "tables (body doc') = map harden_twice (tables (body doc))"
proof -
  define d1 where "d1 = set_page_margins doc 3 3 2 2"
  have "\<exists>d2. configure_default_style d1 ''Times New Roman'' 12 (3 / 2)
           (first_line_indent_cm cfg) = Inr d2"
  proof (cases "configure_default_style d1 ''Times New Roman'' 12 (3 / 2) (first_line_indent_cm cfg)")
    case (Inl e)
    then have "apply_abnt_formatting doc cfg = Inl e"
      by (simp only: apply_abnt_formatting_def d1_def[symmetric] sum.case)
    with assms show ?thesis by simp
  next
    case (Inr d)
    then show ?thesis by blast
  qed
  then obtain d2 where d2: "configure_default_style d1 ''Times New Roman'' 12 (3 / 2)
           (first_line_indent_cm cfg) = Inr d2" ..
  define d3 where "d3 = style_all_paragraphs d2 (justify cfg) (first_line_indent_cm cfg)"
  define d4 where "d4 = configure_heading_styles d3 (h1_caps cfg) (h2_caps cfg) (h3_caps cfg)"
  define d5 where "d5 = (if center_images cfg then center_paragraphs_with_drawings d4 else d4)"
  define d6 where "d6 = d5\<lparr>body := map_tables prevent_table_row_split_and_repeat_header (body d5)\<rparr>"
  have step: "apply_abnt_formatting doc cfg =
     (case ensure_captions d6 (auto_captions_fig cfg) (auto_captions_tab cfg) of
                Inl e \<Rightarrow> Inl e
              | Inr d7 \<Rightarrow>
                 (case process_long_quote_markers d7 of
                    Inl e \<Rightarrow> Inl e
                  | Inr (d8, n) \<Rightarrow>
                     (let d9 = (if format_refs_block cfg
                                then fst (apply_references_block_format d8 (5 / 4) 1 6) else d8);
                          d10 = (if footer_page_numbers cfg
                                 then add_page_number_to_footer d9 ''right'' else d9)
                      in Inr (remove_extra_blank_lines d10))))"
    by (simp only: apply_abnt_formatting_def d1_def[symmetric] d2 sum.case Let_def
        d3_def[symmetric] d4_def[symmetric] d5_def[symmetric] d6_def[symmetric])
  from assms step obtain d7 where d7: "ensure_captions d6 (auto_captions_fig cfg) (auto_captions_tab cfg) = Inr d7"
    by (cases "ensure_captions d6 (auto_captions_fig cfg) (auto_captions_tab cfg)") auto
  from assms step d7 obtain d8 n where d8: "process_long_quote_markers d7 = Inr (d8, n)"
    by (cases "process_long_quote_markers d7") auto
  define d9 where "d9 = (if format_refs_block cfg
                                then fst (apply_references_block_format d8 (5 / 4) 1 6) else d8)"
  define d10 where "d10 = (if footer_page_numbers cfg
                                 then add_page_number_to_footer d9 ''right'' else d9)"
  have "apply_abnt_formatting doc cfg = Inr (remove_extra_blank_lines d10)"
    by (simp only: step d7 d8 sum.case prod.case Let_def d9_def[symmetric] d10_def[symmetric])
  with assms have out: "doc' = remove_extra_blank_lines d10"
    by simp
  have t1: "tables (body d2) = tables (body doc)"
    using body_configure_default_style[OF d2] by (simp add: d1_def set_page_margins_def)
  have t3: "tables (body d3) = tables (body d2)"
    by (simp add: d3_def style_all_paragraphs_def tables_map_paragraphs)
  have t4: "tables (body d4) = tables (body d3)"
    by (simp add: d4_def configure_heading_styles_def tables_map_paragraphs)
  have t5: "tables (body d5) = tables (body d4)"
    by (simp add: d5_def center_paragraphs_with_drawings_def tables_map_paragraphs)
  have t6: "tables (body d6) = map prevent_table_row_split_and_repeat_header (tables (body d5))"
    by (simp add: d6_def tables_map_tables)
  have t7: "tables (body d7) = map prevent_table_row_split_and_repeat_header (tables (body d6))"
    using tables_ensure_captions[OF d7] .
  have t8: "tables (body d8) = tables (body d7)"
    using tables_process_long_quote_markers[OF d8] .
  have t9: "tables (body d9) = tables (body d8)"
    by (simp add: d9_def tables_apply_references_block_format)
  have t10: "tables (body d10) = tables (body d9)"
    by (simp add: d10_def add_page_number_to_footer_def)
  have t11: "tables (body doc') = tables (body d10)"
    by (simp add: out remove_extra_blank_lines_def tables_rebl_loop)
  show ?thesis
    by (simp add: t11 t10 t9 t8 t7 t6 t5 t4 t3 t1 harden_twice_def comp_def)
qed

lemma count_prop_set_row_cant_split:
  "count_prop c (set_row_cant_split r) = count_prop c r + (if c = CantSplit then 1 else 0)"
  by (simp add: count_prop_def set_row_cant_split_def get_or_add_trPr_def)

lemma count_prop_harden_rows:
  "i < length rs \<Longrightarrow>
   count_prop c (harden_rows k rs ! i) =
     count_prop c (rs ! i) + (if c = CantSplit then 1 else 0)
       + (if c = TblHeader \<and> k + i = 0 then 1 else 0)"
  by (simp add: harden_rows_nth count_prop_def set_row_cant_split_def get_or_add_trPr_def)

lemma count_prop_harden_twice:
  assumes "i < length (rows t)"
  shows "count_prop c (rows (harden_twice t) ! i) =
     count_prop c (rows t ! i) + (if c = CantSplit then 2 else 0)
       + (if c = TblHeader \<and> i = 0 then 2 else 0)"
proof -
  have "i < length (harden_rows 0 (rows t))"
    using assms by (simp add: length_harden_rows)
  from count_prop_harden_rows[OF this, of c 0] count_prop_harden_rows[OF assms, of c 0]
  show ?thesis
    by (simp add: harden_twice_def prevent_table_row_split_and_repeat_header_def)
qed

lemma harden_not_idempotent:
  assumes "rows t \<noteq> []"
  shows "harden_twice t \<noteq> prevent_table_row_split_and_repeat_header t"
proof
  assume eq: "harden_twice t = prevent_table_row_split_and_repeat_header t"
  from assms have pos: "0 < length (rows t)" by simp
  then have pos': "0 < length (harden_rows 0 (rows t))" by (simp add: length_harden_rows)
  have "count_prop CantSplit (rows (harden_twice t) ! 0) = count_prop CantSplit (rows t ! 0) + 2"
    using count_prop_harden_twice[OF pos, of CantSplit] by simp
  moreover have "count_prop CantSplit (rows (prevent_table_row_split_and_repeat_header t) ! 0)
      = count_prop CantSplit (rows t ! 0) + 1"
    using count_prop_harden_rows[OF pos, of CantSplit 0]
    by (simp add: prevent_table_row_split_and_repeat_header_def)
  ultimately show False using eq by simp
qed

lemmas run_pipeline_defs =
  apply_abnt_formatting_def ui_defaults_def plain_style_def
  text_para_def set_page_margins_def configure_default_style_def style_all_paragraphs_def
  style_paragraph_def is_heading_def style_name_def default_name_def str_lower_def
  lower_char_def configure_heading_styles_def heading_caps_def
  center_paragraphs_with_drawings_def has_drawing_def
  prevent_table_row_split_and_repeat_header_def set_row_cant_split_def get_or_add_trPr_def
  ensure_captions_def process_long_quote_markers_def para_text_def OPEN_LQ_def CLOSE_LQ_def
  cons_block_def apply_references_block_format_def OPEN_REFS_def CLOSE_REFS_def
  add_page_number_to_footer_def remove_extra_blank_lines_def rebl_loop.simps Let_def

text \<open>
  C10 as stated does not hold: a row that holds a \<open>w:cantSplit\<close> in the input holds
  three of them after the pipeline, not two.
\<close>

theorem pipeline_presplit_counterexample:
  "map_sum id (prop_counts CantSplit) (apply_abnt_formatting doc_presplit ui_defaults)
     = Inr [[3]]"
  by (simp add: run_pipeline_defs doc_presplit_def prop_counts_def count_prop_def)

text \<open>
  C10, amended: when \<open>apply_abnt_formatting\<close> returns, every table of the body has been
  hardened exactly twice (once by the table loop, once inside \<open>ensure_captions\<close>); each
  call appends without looking at what is there, so every row holds two more
  \<open>w:cantSplit\<close> children than in the input, row 0 holds two more \<open>w:tblHeader\<close> children
  and the other rows as many as before; and hardening a table that has a row twice
  differs from hardening it once.
\<close>

theorem pipeline_hardens_tables_twice:
  "apply_abnt_formatting doc cfg = Inr doc' \<Longrightarrow>
   tables (body doc') = map harden_twice (tables (body doc)) \<and>
   (\<forall>k i. k < length (tables (body doc)) \<and> i < length (rows (tables (body doc) ! k)) \<longrightarrow>
      count_prop CantSplit (rows (tables (body doc') ! k) ! i)
        = count_prop CantSplit (rows (tables (body doc) ! k) ! i) + 2 \<and>
      count_prop TblHeader (rows (tables (body doc') ! k) ! i)
        = count_prop TblHeader (rows (tables (body doc) ! k) ! i) + (if i = 0 then 2 else 0)) \<and>
   (\<forall>t. rows t \<noteq> [] \<longrightarrow> harden_twice t \<noteq> prevent_table_row_split_and_repeat_header t)"
proof -
  assume run: "apply_abnt_formatting doc cfg = Inr doc'"
  have tabs: "tables (body doc') = map harden_twice (tables (body doc))"
    using pipeline_tables[OF run] .
  have counts:
    "count_prop CantSplit (rows (tables (body doc') ! k) ! i)
        = count_prop CantSplit (rows (tables (body doc) ! k) ! i) + 2 \<and>
     count_prop TblHeader (rows (tables (body doc') ! k) ! i)
        = count_prop TblHeader (rows (tables (body doc) ! k) ! i) + (if i = 0 then 2 else 0)"
    if "k < length (tables (body doc))" "i < length (rows (tables (body doc) ! k))" for k i
    using that count_prop_harden_twice[OF that(2)] by (simp add: tabs)
  from tabs counts harden_not_idempotent show ?thesis by blast
qed

theorem pipeline_hardens_tables_twice_witness:
  "map_sum id (prop_counts CantSplit) (apply_abnt_formatting doc_fresh_table ui_defaults)
     = Inr [[2, 2]] \<and>
   map_sum id (prop_counts TblHeader) (apply_abnt_formatting doc_fresh_table ui_defaults)
     = Inr [[2, 0]]"
proof -
  have "\<exists>d. apply_abnt_formatting doc_fresh_table ui_defaults = Inr d"
    by (simp add: run_pipeline_defs doc_fresh_table_def)
  then obtain d where run: "apply_abnt_formatting doc_fresh_table ui_defaults = Inr d" ..
  from pipeline_hardens_tables_twice[OF run]
  have tabs: "tables (body d) = map harden_twice (tables (body doc_fresh_table))" by blast
  have c1: "prop_counts CantSplit d = [[2, 2]]"
    by (simp add: tabs prop_counts_def doc_fresh_table_def harden_twice_def count_prop_def
        prevent_table_row_split_and_repeat_header_def set_row_cant_split_def
        get_or_add_trPr_def)
  have c2: "prop_counts TblHeader d = [[2, 0]]"
    by (simp add: tabs prop_counts_def doc_fresh_table_def harden_twice_def count_prop_def
        prevent_table_row_split_and_repeat_header_def set_row_cant_split_def
        get_or_add_trPr_def)
  show ?thesis
    by (simp add: run c1 c2)
qed

subsection \<open>The property passes\<close>

lemma set_page_margins_twice:
  "set_page_margins (set_page_margins doc t l r b) t l r b = set_page_margins doc t l r b"
  by (simp add: set_page_margins_def comp_def)

lemma configure_default_style_twice:
  "configure_default_style doc name sz ls ind = Inr d \<Longrightarrow>
   configure_default_style d name sz ls ind = Inr d"
  by (auto simp: configure_default_style_def split: option.splits)

lemma style_paragraph_twice:
  "style_paragraph sty dflt just ind (style_paragraph sty dflt just ind p)
     = style_paragraph sty dflt just ind p"
  by (simp add: style_paragraph_def is_heading_def style_name_def)

lemma map_paragraphs_twice:
  "(\<And>p. f (f p) = f p) \<Longrightarrow> map_paragraphs f (map_paragraphs f bs) = map_paragraphs f bs"
  by (induction f bs rule: map_paragraphs.induct) auto

lemma style_all_paragraphs_twice:
  "style_all_paragraphs (style_all_paragraphs d just ind) just ind = style_all_paragraphs d just ind"
  by (simp add: style_all_paragraphs_def map_paragraphs_twice style_paragraph_twice)

lemma configure_default_style_fields:
  "configure_default_style doc name sz ls ind = Inr d \<Longrightarrow>
   sections d = sections doc \<and> body d = body doc \<and> default_style d = default_style doc"
  by (auto simp: configure_default_style_def split: option.splits)

lemma margins_after_style:
  "set_page_margins (style_all_paragraphs d just ind) t l r b
     = style_all_paragraphs (set_page_margins d t l r b) just ind"
  by (simp add: set_page_margins_def style_all_paragraphs_def)

lemma default_style_after_style:
  assumes "configure_default_style d name sz ls ind = Inr d"
  shows "configure_default_style (style_all_paragraphs d just ind2) name sz ls ind
           = Inr (style_all_paragraphs d just ind2)"
proof -
  from assms obtain normal where n: "styles d ''Normal'' = Some normal"
    by (auto simp: configure_default_style_def split: option.splits)
  from assms n have eq: "d\<lparr>styles := (styles d)(''Normal'' \<mapsto>
                 normal\<lparr>font_name := Some name, font_size := Some (Pt sz),
                        style_pf := (style_pf normal)\<lparr>line_spacing := Some ls,
                           space_before := Some (Pt 0), space_after := Some (Pt 0),
                           first_line_indent := Some (Cm ind)\<rparr>\<rparr>)\<rparr> = d"
    by (simp add: configure_default_style_def)
  from arg_cong[OF eq, of styles] have sty: "(styles d)(''Normal'' \<mapsto>
                 normal\<lparr>font_name := Some name, font_size := Some (Pt sz),
                        style_pf := (style_pf normal)\<lparr>line_spacing := Some ls,
                           space_before := Some (Pt 0), space_after := Some (Pt 0),
                           first_line_indent := Some (Cm ind)\<rparr>\<rparr>) = styles d"
    by simp
  show ?thesis
    using n sty by (simp add: configure_default_style_def style_all_paragraphs_def)
qed

lemma property_passes_returns:
  "styles doc ''Normal'' \<noteq> None \<Longrightarrow>
   \<exists>d. property_passes doc t l r b name sz ls ind just ind2 = Inr d"
  by (auto simp: property_passes_def configure_default_style_def set_page_margins_def)

text \<open>
  C6: when \<open>set_page_margins\<close>, \<open>configure_default_style\<close> and \<open>style_all_paragraphs\<close> have
  run once and returned the document \<open>d\<close>, running the three again on \<open>d\<close> returns \<open>d\<close>
  itself: every section margin, every property of the default style and every paragraph
  format is as after the first run. (They return for every document that has a style
  named Normal; without one the first run already raises KeyError.)
\<close>

theorem property_passes_idempotent:
  "property_passes doc t l r b name sz ls ind just ind2 = Inr d \<Longrightarrow>
   property_passes d t l r b name sz ls ind just ind2 = Inr d"
proof -
  assume run: "property_passes doc t l r b name sz ls ind just ind2 = Inr d"
  then obtain d2 where d2: "configure_default_style (set_page_margins doc t l r b) name sz ls ind = Inr d2"
    and d: "d = style_all_paragraphs d2 just ind2"
    by (auto simp: property_passes_def split: sum.splits)
  have m2: "set_page_margins d2 t l r b = d2"
  proof -
    have "sections d2 = sections (set_page_margins doc t l r b)"
      using configure_default_style_fields[OF d2] by simp
    then have "sections (set_page_margins d2 t l r b) = sections d2"
      by (simp add: set_page_margins_def comp_def)
    then show ?thesis by (simp add: set_page_margins_def)
  qed
  have c2: "configure_default_style d2 name sz ls ind = Inr d2"
    using configure_default_style_twice[OF d2] .
  have "set_page_margins d t l r b = d"
    by (simp add: d margins_after_style m2)
  moreover have "configure_default_style d name sz ls ind = Inr d"
    unfolding d using default_style_after_style[OF c2] .
  moreover have "style_all_paragraphs d just ind2 = d"
    by (simp add: d style_all_paragraphs_twice)
  ultimately show ?thesis
    by (simp add: property_passes_def)
qed

theorem property_passes_idempotent_witness:
  "(case property_passes doc_heading_and_text 3 3 2 2 ''Times New Roman'' 12 (3 / 2) (5 / 4)
           True (5 / 4) of
      Inl e \<Rightarrow> False
    | Inr d \<Rightarrow>
        property_passes d 3 3 2 2 ''Times New Roman'' 12 (3 / 2) (5 / 4) True (5 / 4) = Inr d)"
proof -
  have "\<exists>d. property_passes doc_heading_and_text 3 3 2 2 ''Times New Roman'' 12 (3 / 2) (5 / 4)
           True (5 / 4) = Inr d"
    by (simp add: property_passes_def configure_default_style_def set_page_margins_def
        doc_heading_and_text_def)
  then obtain d where run:
    "property_passes doc_heading_and_text 3 3 2 2 ''Times New Roman'' 12 (3 / 2) (5 / 4)
           True (5 / 4) = Inr d" ..
  from property_passes_idempotent[OF run] show ?thesis
    by (simp add: run)
qed

subsection \<open>Blank paragraphs\<close>

lemma rebl_loop_unfold:
  "rebl_loop i bs =
     (if i + 1 < length (paragraphs bs) then
        (if blank_para (paragraphs bs ! i) \<and> blank_para (paragraphs bs ! (i + 1))
         then rebl_loop i (remove_paragraph (i + 1) bs)
         else rebl_loop (i + 1) bs)
      else bs)"
  by (rule rebl_loop.simps)

lemma rebl_loop_skip:
  assumes "paragraphs [b] = []"
  shows "rebl_loop i (b # bs) = b # rebl_loop i bs"
proof (induction i bs rule: rebl_loop.induct)
  case (1 i bs)
  from assms have ps: "paragraphs (b # bs) = paragraphs bs" for bs
    by (cases b) auto
  from assms have rm: "remove_paragraph n (b # bs) = b # remove_paragraph n bs" for n bs
    by (cases b) auto
  show ?case
  proof (cases "i + 1 < length (paragraphs bs)")
    case False
    then show ?thesis
      by (subst rebl_loop_unfold, subst (2) rebl_loop_unfold) (simp add: ps)
  next
    case True
    show ?thesis
    proof (cases "blank_para (paragraphs bs ! i) \<and> blank_para (paragraphs bs ! (i + 1))")
      case both: True
      have "rebl_loop i (b # bs) = rebl_loop i (b # remove_paragraph (i + 1) bs)"
        using True both by (subst rebl_loop_unfold) (simp add: ps rm)
      also have "\<dots> = b # rebl_loop i (remove_paragraph (i + 1) bs)"
        using "1.IH"(1)[OF True both] .
      also have "rebl_loop i (remove_paragraph (i + 1) bs) = rebl_loop i bs"
        using True both by (subst (2) rebl_loop_unfold) simp
      finally show ?thesis .
    next
      case notboth: False
      have "rebl_loop i (b # bs) = rebl_loop (i + 1) (b # bs)"
        using True notboth by (subst rebl_loop_unfold) (auto simp: ps)
      also have "\<dots> = b # rebl_loop (i + 1) bs"
        using "1.IH"(2)[OF True notboth] .
      also have "rebl_loop (i + 1) bs = rebl_loop i bs"
        using True notboth by (subst (2) rebl_loop_unfold) auto
      finally show ?thesis .
    qed
  qed
qed

lemma rebl_loop_shift:
  "rebl_loop (Suc i) (P p # bs) = P p # rebl_loop i bs"
proof (induction i bs rule: rebl_loop.induct)
  case (1 i bs)
  show ?case
  proof (cases "i + 1 < length (paragraphs bs)")
    case False
    then show ?thesis
      by (subst rebl_loop_unfold, subst (2) rebl_loop_unfold) simp
  next
    case True
    show ?thesis
    proof (cases "blank_para (paragraphs bs ! i) \<and> blank_para (paragraphs bs ! (i + 1))")
      case both: True
      have "rebl_loop (Suc i) (P p # bs) = rebl_loop (Suc i) (P p # remove_paragraph (i + 1) bs)"
        using True both by (subst rebl_loop_unfold) simp
      also have "\<dots> = P p # rebl_loop i (remove_paragraph (i + 1) bs)"
        using "1.IH"(1)[OF True both] .
      also have "rebl_loop i (remove_paragraph (i + 1) bs) = rebl_loop i bs"
        using True both by (subst (2) rebl_loop_unfold) simp
      finally show ?thesis .
    next
      case notboth: False
      have "rebl_loop (Suc i) (P p # bs) = rebl_loop (Suc (i + 1)) (P p # bs)"
        using True notboth by (subst rebl_loop_unfold) auto
      also have "\<dots> = P p # rebl_loop (i + 1) bs"
        using "1.IH"(2)[OF True notboth] .
      also have "rebl_loop (i + 1) bs = rebl_loop i bs"
        using True notboth by (subst (2) rebl_loop_unfold) auto
      finally show ?thesis .
    qed
  qed
qed

lemma collapse_no_paragraphs: "paragraphs bs = [] \<Longrightarrow> collapse_blocks prev bs = bs"
  by (induction prev bs rule: collapse_blocks.induct) auto

lemma collapse_drop_blank:
  "paragraphs bs = q # qs \<Longrightarrow> blank_para q \<Longrightarrow>
   collapse_blocks True (remove_paragraph 0 bs) = collapse_blocks True bs"
  by (induction bs rule: paragraphs.induct) auto

lemma collapse_after_nonblank:
  "paragraphs bs = q # qs \<Longrightarrow> \<not> blank_para q \<Longrightarrow>
   collapse_blocks True bs = collapse_blocks False bs"
  by (induction bs rule: paragraphs.induct) auto

lemma length_remove_paragraph:
  "n < length (paragraphs bs) \<Longrightarrow> length (remove_paragraph n bs) < length bs"
proof (induction n bs rule: remove_paragraph.induct)
  case (2 n p bs)
  then show ?case by (cases n) auto
qed auto

lemma rebl_loop_collapse: "rebl_loop 0 bs = collapse_blocks False bs"
proof (induction bs rule: length_induct)
  case (1 bs)
  show ?case
  proof (cases bs)
    case Nil
    then show ?thesis by (subst rebl_loop_unfold) simp
  next
    case (Cons b bs')
    show ?thesis
    proof (cases b)
      case (Tbl t)
      with Cons 1 show ?thesis by (simp add: rebl_loop_skip)
    next
      case (Other x)
      with Cons 1 show ?thesis by (simp add: rebl_loop_skip)
    next
      case (P p)
      show ?thesis
      proof (cases "paragraphs bs'")
        case Nil
        then show ?thesis
          unfolding Cons P by (subst rebl_loop_unfold) (simp add: collapse_no_paragraphs)
      next
        case ps: (Cons q qs)
        show ?thesis
        proof (cases "blank_para p \<and> blank_para q")
          case True
          have len: "length (P p # remove_paragraph 0 bs') < length bs"
            using length_remove_paragraph[of 0 bs'] ps Cons by simp
          have "rebl_loop 0 bs = rebl_loop 0 (P p # remove_paragraph 0 bs')"
            unfolding Cons P using True ps by (subst rebl_loop_unfold) simp
          also have "\<dots> = collapse_blocks False (P p # remove_paragraph 0 bs')"
            using 1 len by blast
          also have "\<dots> = collapse_blocks False bs"
            using True collapse_drop_blank[OF ps] by (simp add: Cons P)
          finally show ?thesis .
        next
          case False
          have "rebl_loop 0 bs = rebl_loop (Suc 0) (P p # bs')"
            unfolding Cons P using False ps by (subst rebl_loop_unfold) auto
          also have "\<dots> = P p # rebl_loop 0 bs'"
            by (rule rebl_loop_shift)
          also have "rebl_loop 0 bs' = collapse_blocks False bs'"
            using 1 Cons by simp
          also have "P p # collapse_blocks False bs' = collapse_blocks False bs"
            using False collapse_after_nonblank[OF ps] by (cases "blank_para p") (auto simp: Cons P)
          finally show ?thesis .
        qed
      qed
    qed
  qed
qed

lemma collapse_append:
  "collapse_blocks prev (xs @ ys) = collapse_blocks prev xs @ collapse_blocks (ends_blank prev xs) ys"
  by (induction prev xs rule: collapse_blocks.induct) auto

lemma ends_blank_no_paragraphs: "paragraphs bs = [] \<Longrightarrow> ends_blank prev bs = prev"
  by (induction prev bs rule: ends_blank.induct) auto

lemma ends_blank_last:
  "ends_blank prev bs = (if paragraphs bs = [] then prev else blank_para (last (paragraphs bs)))"
  by (induction prev bs rule: ends_blank.induct) auto

lemma collapse_before_nonblank:
  "paragraphs bs = [] \<or> \<not> blank_para (hd (paragraphs bs)) \<Longrightarrow>
   collapse_blocks True bs = collapse_blocks False bs"
  by (cases "paragraphs bs") (auto simp: collapse_no_paragraphs collapse_after_nonblank)

lemma collapse_blank_follower:
  assumes "blank_para p" "blank_para q" "paragraphs m = []"
  shows "collapse_blocks prev (pre @ P p # m @ P q # post)
           = collapse_blocks prev (pre @ P p # m @ post)"
proof -
  have "collapse_blocks s (P p # m @ P q # post) = collapse_blocks s (P p # m @ post)" for s
    using assms
    by (simp add: collapse_append collapse_no_paragraphs ends_blank_no_paragraphs)
  then show ?thesis
    by (simp add: collapse_append)
qed

lemmas blank_defs = blank_para_def is_blank_def is_space_def para_text_def text_para_def
  image_para_def

text \<open>
  C7: when the body holds three paragraphs in a row (in \<open>doc.paragraphs\<close>: tables may
  stand between them) whose text is empty or whitespace only, the paragraph before
  them, if any, is not blank and the paragraph after them, if any, is not blank, then
  \<open>remove_extra_blank_lines\<close> keeps the first of the three and deletes the other two;
  nothing else between them changes, and the parts before and after are treated on
  their own.
\<close>

theorem blank_run_collapses:
  assumes "body doc = pre @ P b1 # m1 @ P b2 # m2 @ P b3 # post"
    and "blank_para b1" and "blank_para b2" and "blank_para b3"
    and "paragraphs m1 = []" and "paragraphs m2 = []"
    and "paragraphs pre = [] \<or> \<not> blank_para (last (paragraphs pre))"
    and "paragraphs post = [] \<or> \<not> blank_para (hd (paragraphs post))"
  shows "body (remove_extra_blank_lines doc)
           = rebl_loop 0 pre @ P b1 # m1 @ m2 @ rebl_loop 0 post"
proof -
  have start: "ends_blank False pre = False"
    using assms(7) by (auto simp: ends_blank_last)
  have "collapse_blocks False (P b1 # m1 @ P b2 # m2 @ P b3 # post)
          = P b1 # m1 @ m2 @ collapse_blocks True post"
    using assms(2-6)
    by (simp add: collapse_append collapse_no_paragraphs ends_blank_no_paragraphs)
  then have "collapse_blocks False (body doc)
          = collapse_blocks False pre @ P b1 # m1 @ m2 @ collapse_blocks False post"
    using collapse_before_nonblank[OF assms(8)]
    by (simp add: assms(1) collapse_append start)
  then show ?thesis
    by (simp add: remove_extra_blank_lines_def rebl_loop_collapse)
qed

theorem blank_run_collapses_witness:
  "blank_para (text_para '' '') \<and> blank_para image_para \<and>
   body (remove_extra_blank_lines doc_blank_run)
     = [P (text_para ''a''), P (text_para ''''), Tbl \<lparr>rows = []\<rparr>, P (text_para ''b'')]"
proof -
  have b: "blank_para (text_para '''')" "blank_para (text_para '' '')" "blank_para image_para"
    "\<not> blank_para (text_para ''a'')" "\<not> blank_para (text_para ''b'')"
    by (simp_all add: blank_defs)
  have e: "rebl_loop 0 [P (text_para ''a'')] = [P (text_para ''a'')]"
    "rebl_loop 0 [P (text_para ''b'')] = [P (text_para ''b'')]"
    by (simp_all add: rebl_loop.simps)
  from blank_run_collapses[of doc_blank_run "[P (text_para ''a'')]" "text_para ''''"
      "[Tbl \<lparr>rows = []\<rparr>]" "text_para '' ''" "[]" image_para "[P (text_para ''b'')]"] b e
  show ?thesis
    by (simp add: doc_blank_run_def)
qed

text \<open>
  C8: the loop looks at the text only. When two paragraphs follow each other in
  \<open>doc.paragraphs\<close> (tables may stand between them) and both texts are whitespace
  only, the second one is deleted, whatever else it holds. The document after the pass
  is the input with this body: the part up to and with the first of the two, collapsed;
  then what stood between the two, untouched; then the part after the second,
  collapsed as what follows a blank paragraph. The second paragraph is not in it. A
  paragraph that holds a picture and no text, such as \<open>image_para\<close>, is blank in this
  sense and goes the same way.
\<close>

theorem blank_follower_is_deleted:
  assumes "body doc = pre @ P p # m @ P q # post"
    and "blank_para p" and "blank_para q" and "paragraphs m = []"
  shows "remove_extra_blank_lines doc
           = doc\<lparr>body := collapse_blocks False (pre @ [P p]) @ m @ collapse_blocks True post\<rparr>"
proof -
  have tail: "collapse_blocks s (P p # m @ P q # post)
                = collapse_blocks s [P p] @ m @ collapse_blocks True post" for s
    using assms(2-4)
    by (simp add: collapse_append collapse_no_paragraphs ends_blank_no_paragraphs)
  have "collapse_blocks False (pre @ P p # m @ P q # post)
          = collapse_blocks False pre @ collapse_blocks (ends_blank False pre) [P p]
              @ m @ collapse_blocks True post"
    by (simp only: collapse_append[of False pre] tail)
  also have "\<dots> = collapse_blocks False (pre @ [P p]) @ m @ collapse_blocks True post"
    by (simp only: collapse_append[of False pre "[P p]"] append_assoc)
  finally show ?thesis
    by (simp add: remove_extra_blank_lines_def rebl_loop_collapse assms(1))
qed

theorem blank_follower_is_deleted_witness:
  "blank_para image_para \<and> has_drawing image_para \<and>
   remove_extra_blank_lines doc_blank_then_image
     = doc_blank_then_image
         \<lparr>body := [P (text_para ''a''), P (text_para '' ''), P (text_para ''b'')]\<rparr>"
proof -
  have b: "blank_para (text_para '' '')" "blank_para image_para" "has_drawing image_para"
    "\<not> blank_para (text_para ''a'')" "\<not> blank_para (text_para ''b'')"
    by (simp_all add: blank_defs has_drawing_def)
  have h: "body doc_blank_then_image
      = [P (text_para ''a'')] @ P (text_para '' '') # [] @ P image_para # [P (text_para ''b'')]"
    by (simp add: doc_blank_then_image_def)
  have m: "paragraphs [] = []" by simp
  from blank_follower_is_deleted[OF h b(1) b(2) m] b
  show ?thesis by simp
qed

subsection \<open>The marker passes\<close>

lemma sty_ext_refl: "sty_ext sty sty"
  by (auto simp: sty_ext_def split: option.splits)

lemma sty_ext_trans: "sty_ext a b \<Longrightarrow> sty_ext b c \<Longrightarrow> sty_ext a c"
  unfolding sty_ext_def
proof (intro allI)
  fix n
  assume ab: "\<forall>n. case a n of None \<Rightarrow> b n = None
          | Some s \<Rightarrow> b n = Some s \<or> b n = Some (s\<lparr>font_size := Some (Pt 10)\<rparr>)"
    and bc: "\<forall>n. case b n of None \<Rightarrow> c n = None
          | Some s \<Rightarrow> c n = Some s \<or> c n = Some (s\<lparr>font_size := Some (Pt 10)\<rparr>)"
  from ab[rule_format, of n] bc[rule_format, of n]
  show "case a n of None \<Rightarrow> c n = None
          | Some s \<Rightarrow> c n = Some s \<or> c n = Some (s\<lparr>font_size := Some (Pt 10)\<rparr>)"
    by (cases "a n"; cases "b n") auto
qed

lemma sty_ext_dom: "sty_ext sty sty' \<Longrightarrow> (sty' n = None) = (sty n = None)"
  unfolding sty_ext_def
  by (erule allE[of _ n]) (auto split: option.splits)

lemma sty_ext_style_name:
  assumes "sty_ext sty sty'"
  shows "style_name sty' dflt p = style_name sty dflt p"
proof -
  have d: "(case sty' n of None \<Rightarrow> x | Some s \<Rightarrow> y) = (case sty n of None \<Rightarrow> x | Some s \<Rightarrow> y)"
    for n and x y :: "string option"
    using sty_ext_dom[OF assms, of n] by (cases "sty n"; cases "sty' n") auto
  show ?thesis
    by (simp add: style_name_def default_name_def d split: option.splits)
qed

lemma sty_ext_font_size:
  assumes "sty_ext sty sty'" and "style_font_size sty dflt p = Some (Pt 10)"
  shows "style_font_size sty' dflt p = Some (Pt 10)"
proof -
  from assms(2) obtain n s where n: "style_name sty dflt p = Some n" and s: "sty n = Some s"
    and f: "font_size s = Some (Pt 10)"
    by (auto simp: style_font_size_def split: option.splits)
  from assms(1) s have "sty' n = Some s \<or> sty' n = Some (s\<lparr>font_size := Some (Pt 10)\<rparr>)"
    unfolding sty_ext_def by (erule_tac x = n in allE) simp
  with f n show ?thesis
    by (auto simp: style_font_size_def sty_ext_style_name[OF assms(1)])
qed

lemma carries_sty_ext:
  "sty_ext sty sty' \<Longrightarrow> carries_long_quote_style sty dflt p \<Longrightarrow>
   carries_long_quote_style sty' dflt p"
  by (simp add: carries_long_quote_style_def sty_ext_font_size)

lemma apply_long_quote_style_result:
  assumes "apply_long_quote_style sty dflt p = Inr (p', sty')"
  shows "carries_long_quote_style sty' dflt p'" and "runs p' = runs p" and "pStyle p' = pStyle p"
    and "sty_ext sty sty'"
proof -
  define p1 where "p1 = p\<lparr>pf := (pf p)\<lparr>first_line_indent := Some (Cm 0), left_indent := Some (Cm 4),
                               right_indent := Some (Cm 0), line_spacing := Some 1\<rparr>\<rparr>"
  have sn: "style_name sty dflt p1 = style_name sty dflt p"
    by (simp add: style_name_def p1_def)
  from assms obtain n s where n: "style_name sty dflt p = Some n" and s: "sty n = Some s"
    and p': "p' = p1\<lparr>pf := (pf p1)\<lparr>alignment := Some JUSTIFY\<rparr>\<rparr>"
    and sty': "sty' = sty(n \<mapsto> s\<lparr>font_size := Some (Pt 10)\<rparr>)"
    unfolding apply_long_quote_style_def Let_def p1_def[symmetric] sn
    by (auto split: option.splits)
  show ext: "sty_ext sty sty'"
    using s by (auto simp: sty_ext_def sty' split: option.splits)
  show "runs p' = runs p" "pStyle p' = pStyle p"
    by (simp_all add: p' p1_def)
  have "style_name sty' dflt p' = Some n"
    using n by (simp add: sty_ext_style_name[OF ext]) (simp add: style_name_def p' p1_def)
  then have "style_font_size sty' dflt p' = Some (Pt 10)"
    by (simp add: style_font_size_def sty')
  then show "carries_long_quote_style sty' dflt p'"
    by (simp add: carries_long_quote_style_def lq_format_def p' p1_def)
qed

lemma cons_block_simps:
  "cons_block b (Inl e) = Inl e" "cons_block b (Inr (bs, s, n)) = Inr (b # bs, s, n)"
  by (simp_all add: cons_block_def)

lemma para_text_set_para_text: "para_text (set_para_text p t) = t"
  by (simp add: para_text_def set_para_text_def set_run_text_def)

lemma plqm_loop_P:
  "plqm_loop fl n sty dflt (P p # bs) =
     (case lq_step fl n sty dflt p of
        Inl e \<Rightarrow> Inl e
      | Inr (p', sty1, n1) \<Rightarrow> cons_block (P p') (plqm_loop (lq_next fl p) n1 sty1 dflt bs))"
  by (auto simp: lq_step_def lq_next_def split: sum.splits)

declare plqm_loop.simps(2) [simp del]

lemma lq_step_result:
  assumes "lq_step fl n sty dflt p = Inr (p', sty1, n1)"
  shows "sty_ext sty sty1" and "pStyle p' = pStyle p"
    and "contains OPEN_LQ (para_text p) \<Longrightarrow>
           para_text p' = str_replace OPEN_LQ [] (para_text p) \<and> carries_long_quote_style sty1 dflt p'"
    and "\<not> contains OPEN_LQ (para_text p) \<Longrightarrow> contains CLOSE_LQ (para_text p) \<Longrightarrow>
           para_text p' = str_replace CLOSE_LQ [] (para_text p) \<and> carries_long_quote_style sty1 dflt p'"
    and "fl \<Longrightarrow> carries_long_quote_style sty1 dflt p'"
    and "\<not> contains OPEN_LQ (para_text p) \<Longrightarrow> \<not> contains CLOSE_LQ (para_text p) \<Longrightarrow> \<not> fl \<Longrightarrow>
           p' = p \<and> sty1 = sty \<and> n1 = n"
proof -
  have styled: "sty_ext sty sty' \<and> pStyle q' = pStyle q \<and> para_text q' = para_text q \<and>
      carries_long_quote_style sty' dflt q'"
    if "apply_long_quote_style sty dflt q = Inr (q', sty')" for q q' sty'
    using apply_long_quote_style_result[OF that] by (simp add: para_text_def)
  have ps: "pStyle (set_para_text p t) = pStyle p" for t
    by (simp add: set_para_text_def)
  show "sty_ext sty sty1" "pStyle p' = pStyle p"
    using assms
    by (auto simp: lq_step_def sty_ext_refl ps split: if_splits sum.splits dest!: styled)
  show "para_text p' = str_replace OPEN_LQ [] (para_text p) \<and> carries_long_quote_style sty1 dflt p'"
    if "contains OPEN_LQ (para_text p)"
    using assms that
    by (auto simp: lq_step_def para_text_set_para_text split: sum.splits dest!: styled)
  show "para_text p' = str_replace CLOSE_LQ [] (para_text p) \<and> carries_long_quote_style sty1 dflt p'"
    if "\<not> contains OPEN_LQ (para_text p)" "contains CLOSE_LQ (para_text p)"
    using assms that
    by (auto simp: lq_step_def para_text_set_para_text split: sum.splits dest!: styled)
  show "carries_long_quote_style sty1 dflt p'" if fl
    using assms that
    by (auto simp: lq_step_def split: if_splits sum.splits dest!: styled)
  show "p' = p \<and> sty1 = sty \<and> n1 = n"
    if "\<not> contains OPEN_LQ (para_text p)" "\<not> contains CLOSE_LQ (para_text p)" "\<not> fl"
    using assms that by (simp add: lq_step_def)
qed

lemma plqm_loop_length:
  "plqm_loop fl n sty dflt bs = Inr (bs', sty', n') \<Longrightarrow> length bs' = length bs"
proof (induction bs arbitrary: fl n sty bs')
  case Nil
  then show ?case by simp
next
  case (Cons b bs)
  show ?case
  proof (cases b)
    case (P p)
    with Cons.prems obtain p' sty1 n1 where
      "cons_block (P p') (plqm_loop (lq_next fl p) n1 sty1 dflt bs) = Inr (bs', sty', n')"
      by (auto simp: plqm_loop_P split: sum.splits)
    then show ?thesis using Cons.IH by (auto dest!: tables_cons_block)
  next
    case (Tbl t)
    with Cons show ?thesis by (auto dest!: tables_cons_block)
  next
    case (Other x)
    with Cons show ?thesis by (auto dest!: tables_cons_block)
  qed
qed

lemma plqm_loop_sty_ext:
  "plqm_loop fl n sty dflt bs = Inr (bs', sty', n') \<Longrightarrow> sty_ext sty sty'"
proof (induction bs arbitrary: fl n sty bs')
  case Nil
  then show ?case by (simp add: sty_ext_refl)
next
  case (Cons b bs)
  show ?case
  proof (cases b)
    case (P p)
    with Cons.prems obtain p' sty1 n1 where
      st: "lq_step fl n sty dflt p = Inr (p', sty1, n1)" and
      "cons_block (P p') (plqm_loop (lq_next fl p) n1 sty1 dflt bs) = Inr (bs', sty', n')"
      by (auto simp: plqm_loop_P split: sum.splits)
    then have "sty_ext sty1 sty'" using Cons.IH by (auto dest!: tables_cons_block)
    with lq_step_result(1)[OF st] show ?thesis by (rule sty_ext_trans)
  next
    case (Tbl t)
    with Cons show ?thesis by (auto dest!: tables_cons_block)
  next
    case (Other x)
    with Cons show ?thesis by (auto dest!: tables_cons_block)
  qed
qed

lemma plqm_loop_append:
  "plqm_loop fl n sty dflt (xs @ ys) =
     (case plqm_loop fl n sty dflt xs of
        Inl e \<Rightarrow> Inl e
      | Inr (xs', sty1, n1) \<Rightarrow>
          (case plqm_loop (lq_flag fl xs) n1 sty1 dflt ys of
             Inl e \<Rightarrow> Inl e
           | Inr (ys', sty2, n2) \<Rightarrow> Inr (xs' @ ys', sty2, n2)))"
proof (induction xs arbitrary: fl n sty)
  case Nil
  then show ?case by (auto split: sum.splits)
next
  case (Cons b xs)
  show ?case
  proof (cases b)
    case (P p)
    show ?thesis
      unfolding P append_Cons plqm_loop_P lq_flag.simps
      by (auto simp: Cons.IH cons_block_def split: sum.splits)
  next
    case (Tbl t)
    then show ?thesis by (auto simp: Cons.IH cons_block_def split: sum.splits)
  next
    case (Other x)
    then show ?thesis by (auto simp: Cons.IH cons_block_def split: sum.splits)
  qed
qed

lemma plqm_loop_region:
  "plqm_loop True n sty dflt bs = Inr (bs', sty', n') \<Longrightarrow>
   list_all (\<lambda>q. \<not> contains CLOSE_LQ (para_text q)) (paragraphs bs) \<Longrightarrow>
   list_all (carries_long_quote_style sty' dflt) (paragraphs bs') \<and>
   length (paragraphs bs') = length (paragraphs bs) \<and> lq_flag True bs = True"
proof (induction bs arbitrary: n sty bs')
  case Nil
  then show ?case by simp
next
  case (Cons b bs)
  show ?case
  proof (cases b)
    case (P p)
    with Cons.prems obtain p' sty1 n1 rest where
      st: "lq_step True n sty dflt p = Inr (p', sty1, n1)" and
      rest: "plqm_loop (lq_next True p) n1 sty1 dflt bs = Inr (rest, sty', n')" and
      bs': "bs' = P p' # rest"
      by (auto simp: plqm_loop_P split: sum.splits dest!: tables_cons_block)
    from Cons.prems(2) P have nc: "\<not> contains CLOSE_LQ (para_text p)"
      and ncs: "list_all (\<lambda>q. \<not> contains CLOSE_LQ (para_text q)) (paragraphs bs)"
      by simp_all
    from nc have nx: "lq_next True p = True" by (simp add: lq_next_def)
    from Cons.IH[OF rest[unfolded nx] ncs]
    have ih: "list_all (carries_long_quote_style sty' dflt) (paragraphs rest)"
      "length (paragraphs rest) = length (paragraphs bs)" "lq_flag True bs = True"
      by simp_all
    have "carries_long_quote_style sty1 dflt p'"
      using lq_step_result(5)[OF st] by simp
    then have "carries_long_quote_style sty' dflt p'"
      using plqm_loop_sty_ext[OF rest] by (rule carries_sty_ext[rotated])
    with ih show ?thesis by (simp add: bs' P nx)
  next
    case (Tbl t)
    with Cons show ?thesis by (auto dest!: tables_cons_block)
  next
    case (Other x)
    with Cons show ?thesis by (auto dest!: tables_cons_block)
  qed
qed

lemma prefix_contains: "prefix tok tx \<Longrightarrow> contains tok tx"
  by (cases tx) auto

lemma contains_Cons: "contains tok cs \<Longrightarrow> contains tok (c # cs)"
  by simp

lemma contains_close_after_open:
  "contains CLOSE_LQ (OPEN_LQ @ rest) = contains CLOSE_LQ rest"
  by (simp add: OPEN_LQ_def CLOSE_LQ_def)

lemma replace_open_over_close:
  "str_replace OPEN_LQ [] (CLOSE_LQ @ rest) = CLOSE_LQ @ str_replace OPEN_LQ [] rest"
  by (simp add: OPEN_LQ_def CLOSE_LQ_def)

lemma replace_open_at_open:
  "str_replace OPEN_LQ [] (OPEN_LQ @ rest) = str_replace OPEN_LQ [] rest"
  by (simp add: OPEN_LQ_def)

lemma str_replace_no_match:
  "old \<noteq> [] \<Longrightarrow> \<not> prefix old (c # cs) \<Longrightarrow>
   str_replace old new (c # cs) = c # str_replace old new cs"
  by simp

lemma OPEN_LQ_nonempty: "OPEN_LQ \<noteq> []"
  by (simp add: OPEN_LQ_def)

lemma close_survives_open_removal:
  "contains CLOSE_LQ tx \<Longrightarrow> contains CLOSE_LQ (str_replace OPEN_LQ [] tx)"
proof (induction tx rule: length_induct)
  case (1 tx)
  show ?case
  proof (cases tx)
    case Nil
    with 1 show ?thesis by (simp add: CLOSE_LQ_def)
  next
    case (Cons c cs)
    show ?thesis
    proof (cases "prefix OPEN_LQ tx")
      case True
      then obtain rest where rest: "tx = OPEN_LQ @ rest" by (auto simp: prefix_def)
      have "length rest < length tx" by (simp add: rest OPEN_LQ_def)
      moreover have "contains CLOSE_LQ rest"
        using "1.prems" by (simp add: rest contains_close_after_open)
      ultimately have "contains CLOSE_LQ (str_replace OPEN_LQ [] rest)"
        using "1.IH" by blast
      then show ?thesis by (simp add: rest replace_open_at_open)
    next
      case False
      have step: "str_replace OPEN_LQ [] tx = c # str_replace OPEN_LQ [] cs"
        using False str_replace_no_match[OF OPEN_LQ_nonempty, of c cs "[]"] by (simp add: Cons)
      show ?thesis
      proof (cases "prefix CLOSE_LQ tx")
        case True
        then obtain rest where rest: "tx = CLOSE_LQ @ rest" by (auto simp: prefix_def)
        show ?thesis
          unfolding rest replace_open_over_close
          by (rule prefix_contains) simp
      next
        case nopre: False
        with "1.prems" have "contains CLOSE_LQ cs" by (simp add: Cons)
        moreover have "length cs < length tx" by (simp add: Cons)
        ultimately have "contains CLOSE_LQ (str_replace OPEN_LQ [] cs)"
          using "1.IH" by blast
        then show ?thesis unfolding step by (rule contains_Cons)
      qed
    qed
  qed
qed

lemma arbf_loop_count: "fst (arbf_loop h ls sp fl n bs) = fst (arbf_loop h ls sp fl 0 bs)"
proof (induction bs arbitrary: fl n)
  case Nil
  then show ?case by simp
next
  case (Cons b bs)
  show ?case
  proof (cases b)
    case (P p)
    show ?thesis
      using Cons.IH[of _ "n + 1"] Cons.IH[of _ n] Cons.IH[of _ "0 + 1"]
      by (simp add: P Let_def split_beta)
  next
    case (Tbl t)
    then show ?thesis using Cons.IH[of fl n] by (simp add: split_beta)
  next
    case (Other x)
    then show ?thesis using Cons.IH[of fl n] by (simp add: split_beta)
  qed
qed

lemma arbf_loop_P:
  "fst (arbf_loop h ls sp fl n (P p # bs)) =
     P (refs_para h ls sp fl p) # fst (arbf_loop h ls sp (refs_next fl p) 0 bs)"
  by (simp add: refs_para_def refs_next_def Let_def split_beta
      arbf_loop_count[of h ls sp _ "Suc n" bs] arbf_loop_count[of h ls sp _ n bs])

lemma arbf_loop_other:
  "fst (arbf_loop h ls sp fl n (Tbl t # bs)) = Tbl t # fst (arbf_loop h ls sp fl 0 bs)"
  "fst (arbf_loop h ls sp fl n (Other x # bs)) = Other x # fst (arbf_loop h ls sp fl 0 bs)"
  using arbf_loop_count[of h ls sp fl n bs] by (simp_all add: split_beta)

declare arbf_loop.simps(2) [simp del] arbf_loop.simps(3) [simp del] arbf_loop.simps(4) [simp del]

lemma arbf_loop_length: "length (fst (arbf_loop h ls sp fl n bs)) = length bs"
proof (induction bs arbitrary: fl n)
  case Nil
  then show ?case by simp
next
  case (Cons b bs)
  then show ?case by (cases b) (simp_all add: arbf_loop_P arbf_loop_other)
qed

lemma arbf_loop_append:
  "fst (arbf_loop h ls sp fl n (xs @ ys)) =
     fst (arbf_loop h ls sp fl 0 xs) @ fst (arbf_loop h ls sp (refs_flag fl xs) 0 ys)"
proof (induction xs arbitrary: fl n)
  case Nil
  then show ?case using arbf_loop_count[of h ls sp fl n ys] by simp
next
  case (Cons b xs)
  then show ?case by (cases b) (simp_all add: arbf_loop_P arbf_loop_other)
qed

lemma refs_para_open:
  "contains OPEN_REFS (para_text p) \<Longrightarrow> carries_refs_style h ls sp (refs_para h ls sp fl p)"
  by (simp add: refs_para_def refs_next_def refs_style_def carries_refs_style_def
      set_para_text_def)

lemma refs_para_in_refs:
  "\<not> contains CLOSE_REFS (para_text p) \<Longrightarrow>
   carries_refs_style h ls sp (refs_para h ls sp True p) \<and> refs_next True p = True"
  by (simp add: refs_para_def refs_next_def refs_style_def carries_refs_style_def
      set_para_text_def)

lemma arbf_loop_region:
  "list_all (\<lambda>q. \<not> contains CLOSE_REFS (para_text q)) (paragraphs bs) \<Longrightarrow>
   list_all (carries_refs_style h ls sp) (paragraphs (fst (arbf_loop h ls sp True n bs))) \<and>
   length (paragraphs (fst (arbf_loop h ls sp True n bs))) = length (paragraphs bs)"
proof (induction bs arbitrary: n)
  case Nil
  then show ?case by simp
next
  case (Cons b bs)
  then show ?case
    by (cases b) (simp_all add: arbf_loop_P arbf_loop_other refs_para_in_refs)
qed

lemma default_name_Some: "default_name sty dflt = Some d \<Longrightarrow> \<exists>s. sty d = Some s"
  by (auto simp: default_name_def split: option.splits)

lemma style_name_resolves:
  assumes "default_name sty dflt = Some d"
  shows "\<exists>n s. style_name sty dflt p = Some n \<and> sty n = Some s"
proof (cases "pStyle p")
  case None
  with assms default_name_Some[OF assms] show ?thesis by (simp add: style_name_def)
next
  case (Some a)
  with assms default_name_Some[OF assms] show ?thesis
    by (cases "sty a") (simp_all add: style_name_def)
qed

lemma apply_long_quote_style_returns:
  assumes "default_name sty dflt = Some d"
  shows "\<exists>p' sty'. apply_long_quote_style sty dflt p = Inr (p', sty') \<and>
           default_name sty' dflt = Some d"
proof -
  define p1 where "p1 = p\<lparr>pf := (pf p)\<lparr>first_line_indent := Some (Cm 0), left_indent := Some (Cm 4),
                               right_indent := Some (Cm 0), line_spacing := Some 1\<rparr>\<rparr>"
  from style_name_resolves[OF assms, of p1]
  obtain n s where n: "style_name sty dflt p1 = Some n" and s: "sty n = Some s"
    by blast
  have r: "apply_long_quote_style sty dflt p
      = Inr (p1\<lparr>pf := (pf p1)\<lparr>alignment := Some JUSTIFY\<rparr>\<rparr>, sty(n \<mapsto> s\<lparr>font_size := Some (Pt 10)\<rparr>))"
    unfolding apply_long_quote_style_def Let_def p1_def[symmetric] by (simp add: n s)
  have "default_name (sty(n \<mapsto> s\<lparr>font_size := Some (Pt 10)\<rparr>)) dflt = Some d"
    using assms by (auto simp: default_name_def split: option.splits)
  with r show ?thesis by simp
qed

lemma plqm_loop_returns:
  "default_name sty dflt = Some d \<Longrightarrow> \<exists>r. plqm_loop fl n sty dflt bs = Inr r"
proof (induction bs arbitrary: fl n sty)
  case Nil
  then show ?case by simp
next
  case (Cons b bs)
  show ?case
  proof (cases b)
    case (P p)
    have styled: "\<exists>p' sty1 n1. (case apply_long_quote_style sty dflt q of
                Inl e \<Rightarrow> Inl e | Inr (p', sty') \<Rightarrow> Inr (p', sty', n + 1)) = Inr (p', sty1, n1) \<and>
              default_name sty1 dflt = Some d" for q
    proof -
      from apply_long_quote_style_returns[OF Cons.prems, of q] obtain p' sty'
        where "apply_long_quote_style sty dflt q = Inr (p', sty')" "default_name sty' dflt = Some d"
        by blast
      then show ?thesis by simp
    qed
    have "\<exists>p' sty1 n1. lq_step fl n sty dflt p = Inr (p', sty1, n1) \<and> default_name sty1 dflt = Some d"
    proof (cases "contains OPEN_LQ (para_text p)")
      case True
      then show ?thesis using styled by (simp add: lq_step_def)
    next
      case no_open: False
      show ?thesis
      proof (cases "contains CLOSE_LQ (para_text p)")
        case True
        then show ?thesis using no_open styled by (simp add: lq_step_def)
      next
        case False
        then show ?thesis using no_open styled Cons.prems by (cases fl) (simp_all add: lq_step_def)
      qed
    qed
    then obtain p' sty1 n1 where st: "lq_step fl n sty dflt p = Inr (p', sty1, n1)"
      and d1: "default_name sty1 dflt = Some d" by blast
    from Cons.IH[OF d1] obtain r where "plqm_loop (lq_next fl p) n1 sty1 dflt bs = Inr r" by blast
    then show ?thesis
      by (cases r) (simp add: P plqm_loop_P st cons_block_simps)
  next
    case (Tbl t)
    from Cons.IH[OF Cons.prems, of fl n] obtain r where "plqm_loop fl n sty dflt bs = Inr r" by blast
    then show ?thesis by (cases r) (simp add: Tbl cons_block_simps)
  next
    case (Other x)
    from Cons.IH[OF Cons.prems, of fl n] obtain r where "plqm_loop fl n sty dflt bs = Inr r" by blast
    then show ?thesis by (cases r) (simp add: Other cons_block_simps)
  qed
qed

lemma list_all_carries_sty_ext:
  "sty_ext sty sty' \<Longrightarrow> list_all (carries_long_quote_style sty dflt) ps \<Longrightarrow>
   list_all (carries_long_quote_style sty' dflt) ps"
  by (induction ps) (auto intro: carries_sty_ext)

lemma plqm_loop_open_at:
  assumes run: "plqm_loop fl0 n0 sty0 dflt (pre @ P p # post) = Inr (bs, sty, n)"
    and op: "contains OPEN_LQ (para_text p)"
  shows "\<exists>pre' p' rest sty2 n2.
           bs = pre' @ P p' # rest \<and> length pre' = length pre \<and>
           para_text p' = str_replace OPEN_LQ [] (para_text p) \<and>
           carries_long_quote_style sty dflt p' \<and>
           plqm_loop True n2 sty2 dflt post = Inr (rest, sty, n)"
proof -
  from run obtain pre' sty1 n1 ys' where
    pre: "plqm_loop fl0 n0 sty0 dflt pre = Inr (pre', sty1, n1)" and
    ys: "plqm_loop (lq_flag fl0 pre) n1 sty1 dflt (P p # post) = Inr (ys', sty, n)" and
    bs: "bs = pre' @ ys'"
    by (auto simp: plqm_loop_append split: sum.splits)
  from ys obtain p' sty2 n2 rest where
    st: "lq_step (lq_flag fl0 pre) n1 sty1 dflt p = Inr (p', sty2, n2)" and
    rest: "plqm_loop (lq_next (lq_flag fl0 pre) p) n2 sty2 dflt post = Inr (rest, sty, n)" and
    ys': "ys' = P p' # rest"
    by (auto simp: plqm_loop_P split: sum.splits dest!: tables_cons_block)
  from op have nx: "lq_next (lq_flag fl0 pre) p = True" by (simp add: lq_next_def)
  from lq_step_result(3)[OF st op] have
    tx: "para_text p' = str_replace OPEN_LQ [] (para_text p)" and
    c2: "carries_long_quote_style sty2 dflt p'" by simp_all
  from c2 plqm_loop_sty_ext[OF rest] have "carries_long_quote_style sty dflt p'"
    by (rule carries_sty_ext[rotated])
  moreover have "bs = pre' @ P p' # rest" by (simp add: bs ys')
  moreover have "length pre' = length pre" by (rule plqm_loop_length[OF pre])
  moreover have "plqm_loop True n2 sty2 dflt post = Inr (rest, sty, n)"
    using rest by (simp add: nx)
  ultimately show ?thesis using tx by blast
qed

lemma process_long_quote_markers_returns:
  "default_name (styles doc) (default_style doc) = Some d \<Longrightarrow>
   \<exists>doc' n. process_long_quote_markers doc = Inr (doc', n)"
  using plqm_loop_returns[of "styles doc" "default_style doc" d False 0 "body doc"]
  by (auto simp: process_long_quote_markers_def)

text \<open>
  C4: when a paragraph holds the open token and no paragraph after it holds the close
  token, every paragraph from that one to the end of the document carries the region
  style after the pass: for \<open>process_long_quote_markers\<close> whenever it returns (it does when
  the document has a default paragraph style, \<open>process_long_quote_markers_returns\<close>),
  and for \<open>apply_references_block_format\<close>, which always returns. The number of
  paragraphs in that part of the body is as before.
\<close>

theorem unclosed_region_runs_to_end:
  "(body doc = pre @ P p # post \<and> contains OPEN_LQ (para_text p) \<and>
    list_all no_close_lq (paragraphs post) \<and>
    process_long_quote_markers doc = Inr (doc', n) \<longrightarrow>
      length (body doc') = length (body doc) \<and>
      length (paragraphs (drop (length pre) (body doc'))) = Suc (length (paragraphs post)) \<and>
      list_all (carries_long_quote_style (styles doc') (default_style doc'))
        (paragraphs (drop (length pre) (body doc')))) \<and>
   (body rdoc = rpre @ P rp # rpost \<and> contains OPEN_REFS (para_text rp) \<and>
    list_all no_close_refs (paragraphs rpost) \<longrightarrow>
      length (body (fst (apply_references_block_format rdoc h ls sp))) = length (body rdoc) \<and>
      length (paragraphs (drop (length rpre) (body (fst (apply_references_block_format rdoc h ls sp)))))
        = Suc (length (paragraphs rpost)) \<and>
      list_all (carries_refs_style h ls sp)
        (paragraphs (drop (length rpre) (body (fst (apply_references_block_format rdoc h ls sp))))))"
proof (intro conjI impI)
  assume a: "body doc = pre @ P p # post \<and> contains OPEN_LQ (para_text p) \<and>
    list_all no_close_lq (paragraphs post) \<and>
    process_long_quote_markers doc = Inr (doc', n)"
  then obtain bs sty where
    run: "plqm_loop False 0 (styles doc) (default_style doc) (pre @ P p # post) = Inr (bs, sty, n)"
    and doc': "doc' = doc\<lparr>styles := sty, body := bs\<rparr>"
    by (auto simp: process_long_quote_markers_def split: sum.splits)
  from a have op: "contains OPEN_LQ (para_text p)" by simp
  from a have nc: "list_all (\<lambda>q. \<not> contains CLOSE_LQ (para_text q)) (paragraphs post)"
    by (simp add: no_close_lq_def[abs_def])
  from plqm_loop_open_at[OF run op] obtain pre' p' rest sty2 n2 where
    bs: "bs = pre' @ P p' # rest" and len: "length pre' = length pre" and
    c: "carries_long_quote_style sty (default_style doc) p'" and
    rest: "plqm_loop True n2 sty2 (default_style doc) post = Inr (rest, sty, n)"
    by blast
  from plqm_loop_region[OF rest nc] have
    r: "list_all (carries_long_quote_style sty (default_style doc)) (paragraphs rest)"
      "length (paragraphs rest) = length (paragraphs post)" by simp_all
  have d: "drop (length pre) (body doc') = P p' # rest"
    by (simp add: doc' bs len[symmetric])
  show "length (body doc') = length (body doc)"
    using a plqm_loop_length[OF run] by (simp add: doc')
  show "length (paragraphs (drop (length pre) (body doc'))) = Suc (length (paragraphs post))"
    by (simp add: d r)
  show "list_all (carries_long_quote_style (styles doc') (default_style doc'))
        (paragraphs (drop (length pre) (body doc')))"
    using c r by (simp add: d) (simp add: doc')
next
  assume a: "body rdoc = rpre @ P rp # rpost \<and> contains OPEN_REFS (para_text rp) \<and>
    list_all no_close_refs (paragraphs rpost)"
  define out where "out = fst (arbf_loop h ls sp False 0 (body rdoc))"
  have b: "body (fst (apply_references_block_format rdoc h ls sp)) = out"
    by (simp add: apply_references_block_format_def out_def split_beta)
  from a have nx: "refs_next (refs_flag False rpre) rp = True" by (simp add: refs_next_def)
  have o: "out = fst (arbf_loop h ls sp False 0 rpre)
      @ P (refs_para h ls sp (refs_flag False rpre) rp) # fst (arbf_loop h ls sp True 0 rpost)"
    using a by (simp add: out_def arbf_loop_append arbf_loop_P nx)
  have d: "drop (length rpre) out
      = P (refs_para h ls sp (refs_flag False rpre) rp) # fst (arbf_loop h ls sp True 0 rpost)"
    using arbf_loop_length[of h ls sp False 0 rpre] by (simp add: o)
  from a have nc: "list_all (\<lambda>q. \<not> contains CLOSE_REFS (para_text q)) (paragraphs rpost)"
    by (simp add: no_close_refs_def[abs_def])
  show "length (body (fst (apply_references_block_format rdoc h ls sp))) = length (body rdoc)"
    by (simp add: b out_def arbf_loop_length)
  show "length (paragraphs (drop (length rpre) (body (fst (apply_references_block_format rdoc h ls sp)))))
        = Suc (length (paragraphs rpost))"
    using arbf_loop_region[OF nc, of h ls sp 0] by (simp add: b d)
  show "list_all (carries_refs_style h ls sp)
        (paragraphs (drop (length rpre) (body (fst (apply_references_block_format rdoc h ls sp)))))"
    using arbf_loop_region[OF nc, of h ls sp 0] a by (simp add: b d refs_para_open)
qed

lemmas marker_defs = OPEN_LQ_def CLOSE_LQ_def OPEN_REFS_def CLOSE_REFS_def para_text_def
  text_para_def no_close_lq_def no_close_refs_def

theorem unclosed_region_runs_to_end_witness:
  "(case process_long_quote_markers doc_unclosed_quote of
      Inl e \<Rightarrow> False
    | Inr (d, n) \<Rightarrow>
        length (paragraphs (drop 1 (body d))) = 2 \<and>
        list_all (carries_long_quote_style (styles d) (default_style d))
          (paragraphs (drop 1 (body d)))) \<and>
   length (paragraphs (drop 1 (body (fst (apply_references_block_format doc_unclosed_refs (5 / 4) 1 6)))))
     = 2 \<and>
   list_all (carries_refs_style (5 / 4) 1 6)
     (paragraphs (drop 1 (body (fst (apply_references_block_format doc_unclosed_refs (5 / 4) 1 6)))))"
proof -
  have "default_name (styles doc_unclosed_quote) (default_style doc_unclosed_quote) = Some ''Normal''"
    by (simp add: doc_unclosed_quote_def default_name_def)
  from process_long_quote_markers_returns[OF this] obtain d n where
    run: "process_long_quote_markers doc_unclosed_quote = Inr (d, n)" by blast
  have h1: "body doc_unclosed_quote
      = [P (text_para ''intro'')] @ P (text_para ''[[CITACAO_LONGA]]quoted'')
          # [Tbl \<lparr>rows = []\<rparr>, P (text_para ''more'')]"
    by (simp add: doc_unclosed_quote_def)
  have h2: "contains OPEN_LQ (para_text (text_para ''[[CITACAO_LONGA]]quoted''))"
    by (simp add: marker_defs)
  have h3: "list_all no_close_lq (paragraphs [Tbl \<lparr>rows = []\<rparr>, P (text_para ''more'')])"
    by (simp add: marker_defs)
  have r1: "body doc_unclosed_refs
      = [P (text_para ''text'')] @ P (text_para ''[[REFERENCIAS]]SILVA, J.'')
          # [P (text_para ''PEREIRA, M.'')]"
    by (simp add: doc_unclosed_refs_def)
  have r2: "contains OPEN_REFS (para_text (text_para ''[[REFERENCIAS]]SILVA, J.''))"
    by (simp add: marker_defs)
  have r3: "list_all no_close_refs (paragraphs [P (text_para ''PEREIRA, M.'')])"
    by (simp add: marker_defs)
  from unclosed_region_runs_to_end[of doc_unclosed_quote "[P (text_para ''intro'')]"
      "text_para ''[[CITACAO_LONGA]]quoted''" "[Tbl \<lparr>rows = []\<rparr>, P (text_para ''more'')]" d n
      doc_unclosed_refs "[P (text_para ''text'')]" "text_para ''[[REFERENCIAS]]SILVA, J.''"
      "[P (text_para ''PEREIRA, M.'')]" "5 / 4" 1 6]
    h1 h2 h3 r1 r2 r3 run
  show ?thesis by simp
qed

text \<open>
  C9: a paragraph whose text holds both \<open>[[CITACAO_LONGA]]\<close> and \<open>[[/CITACAO_LONGA]]\<close>
  takes the open branch: its new text is the old one without the open token and still
  holds the close token, it carries the long-quotation style, and the paragraphs after
  it, up to the next one that holds a close token, carry the style too.
\<close>

theorem open_and_close_in_one_paragraph:
  assumes "body doc = pre @ P p # mid @ rest"
    and "contains OPEN_LQ (para_text p)" and "contains CLOSE_LQ (para_text p)"
    and "list_all no_close_lq (paragraphs mid)"
    and "process_long_quote_markers doc = Inr (doc', n)"
  shows "\<exists>p'. body doc' ! length pre = P p' \<and>
           para_text p' = str_replace OPEN_LQ [] (para_text p) \<and>
           contains CLOSE_LQ (para_text p') \<and>
           carries_long_quote_style (styles doc') (default_style doc') p' \<and>
           length (paragraphs (take (length mid) (drop (Suc (length pre)) (body doc'))))
             = length (paragraphs mid) \<and>
           list_all (carries_long_quote_style (styles doc') (default_style doc'))
             (paragraphs (take (length mid) (drop (Suc (length pre)) (body doc'))))"
proof -
  from assms(1,5) obtain bs sty where
    run: "plqm_loop False 0 (styles doc) (default_style doc) (pre @ P p # mid @ rest)
            = Inr (bs, sty, n)"
    and doc': "doc' = doc\<lparr>styles := sty, body := bs\<rparr>"
    by (auto simp: process_long_quote_markers_def split: sum.splits)
  from plqm_loop_open_at[OF run assms(2)] obtain pre' p' tail sty2 n2 where
    bs: "bs = pre' @ P p' # tail" and len: "length pre' = length pre" and
    tx: "para_text p' = str_replace OPEN_LQ [] (para_text p)" and
    c: "carries_long_quote_style sty (default_style doc) p'" and
    tail: "plqm_loop True n2 sty2 (default_style doc) (mid @ rest) = Inr (tail, sty, n)"
    by blast
  from tail obtain mid' sty3 n3 rest' where
    mid: "plqm_loop True n2 sty2 (default_style doc) mid = Inr (mid', sty3, n3)" and
    rest: "plqm_loop (lq_flag True mid) n3 sty3 (default_style doc) rest = Inr (rest', sty, n)" and
    tl: "tail = mid' @ rest'"
    by (auto simp: plqm_loop_append split: sum.splits)
  from assms(4) have nc: "list_all (\<lambda>q. \<not> contains CLOSE_LQ (para_text q)) (paragraphs mid)"
    by (simp add: no_close_lq_def[abs_def])
  from plqm_loop_region[OF mid nc] have
    m: "list_all (carries_long_quote_style sty3 (default_style doc)) (paragraphs mid')"
      "length (paragraphs mid') = length (paragraphs mid)" by simp_all
  from m(1) plqm_loop_sty_ext[OF rest]
  have m': "list_all (carries_long_quote_style sty (default_style doc)) (paragraphs mid')"
    by (rule list_all_carries_sty_ext[rotated])
  have lm: "length mid' = length mid" by (rule plqm_loop_length[OF mid])
  have nth: "body doc' ! length pre = P p'"
    by (simp add: doc' bs len[symmetric])
  have tk: "take (length mid) (drop (Suc (length pre)) (body doc')) = mid'"
    by (simp add: doc' bs tl len[symmetric] lm[symmetric])
  have cl: "contains CLOSE_LQ (para_text p')"
    unfolding tx using assms(3) by (rule close_survives_open_removal)
  from nth tx cl c m' m(2) show ?thesis
    by (simp add: tk) (simp add: doc')
qed

theorem open_and_close_in_one_paragraph_witness:
  "(case process_long_quote_markers doc_open_and_close of
      Inl e \<Rightarrow> False
    | Inr (d, n) \<Rightarrow>
        (\<exists>p'. body d ! 1 = P p' \<and> para_text p' = ''q[[/CITACAO_LONGA]]'' \<and>
              carries_long_quote_style (styles d) (default_style d) p') \<and>
        length (paragraphs (take 1 (drop 2 (body d)))) = 1 \<and>
        list_all (carries_long_quote_style (styles d) (default_style d))
          (paragraphs (take 1 (drop 2 (body d)))))"
proof -
  have "default_name (styles doc_open_and_close) (default_style doc_open_and_close) = Some ''Normal''"
    by (simp add: doc_open_and_close_def default_name_def)
  from process_long_quote_markers_returns[OF this] obtain d n where
    run: "process_long_quote_markers doc_open_and_close = Inr (d, n)" by blast
  have h1: "body doc_open_and_close
      = [P (text_para ''a'')] @ P (text_para ''[[CITACAO_LONGA]]q[[/CITACAO_LONGA]]'')
          # [P (text_para ''after'')] @ [P (text_para ''end[[/CITACAO_LONGA]]''), P (text_para ''z'')]"
    by (simp add: doc_open_and_close_def)
  have h2: "contains OPEN_LQ (para_text (text_para ''[[CITACAO_LONGA]]q[[/CITACAO_LONGA]]''))"
    "contains CLOSE_LQ (para_text (text_para ''[[CITACAO_LONGA]]q[[/CITACAO_LONGA]]''))"
    by (simp_all add: marker_defs)
  have h3: "list_all no_close_lq (paragraphs [P (text_para ''after'')])"
    by (simp add: marker_defs)
  have e: "str_replace OPEN_LQ [] (para_text (text_para ''[[CITACAO_LONGA]]q[[/CITACAO_LONGA]]''))
      = ''q[[/CITACAO_LONGA]]''"
    by (simp add: marker_defs)
  from open_and_close_in_one_paragraph[OF h1 h2 h3 run] e
  show ?thesis by (auto simp: run numeral_2_eq_2)
qed

lemma Pt_10_12: "Pt 10 = 127000" "Pt 12 = 152400"
  by (simp_all add: Pt_def py_int_def)

lemmas lq_eval = process_long_quote_markers_def plqm_loop.simps apply_long_quote_style_def
  cons_block_def style_name_def default_name_def style_font_size_def set_para_text_def
  set_run_text_def carries_long_quote_style_def lq_format_def normal_12pt_def empty_format_def
  Let_def

text \<open>
  C1 at the document \<open>[A, "[[CITACAO_LONGA]]text1", "mid", "text2[[/CITACAO_LONGA]]", B]\<close>
  whose paragraphs all resolve to the style Normal, of 12 pt: the pass returns, counts
  three paragraphs, strips both tokens and gives the three paragraphs the long-quotation
  style; the elements of A and B are as before, but the font size went to the style
  object they share with the quotation, so A and B are at 10 pt too, and no longer at
  12 pt.
\<close>

theorem region_font_size_is_shared:
  "style_font_size (styles doc_region) (default_style doc_region) (text_para ''A'') = Some (Pt 12) \<and>
   (case process_long_quote_markers doc_region of
      Inl e \<Rightarrow> False
    | Inr (d, n) \<Rightarrow>
        n = 3 \<and>
        map para_text (paragraphs (body d)) = [''A'', ''text1'', ''mid'', ''text2'', ''B''] \<and>
        list_all (carries_long_quote_style (styles d) (default_style d))
          (paragraphs (take 3 (drop 1 (body d)))) \<and>
        body d ! 0 = P (text_para ''A'') \<and> body d ! 4 = P (text_para ''B'') \<and>
        style_font_size (styles d) (default_style d) (text_para ''A'') = Some (Pt 10) \<and>
        style_font_size (styles d) (default_style d) (text_para ''B'') = Some (Pt 10)) \<and>
   Pt 10 \<noteq> Pt 12"
  by (simp add: doc_region_def lq_eval marker_defs Pt_10_12 numeral_3_eq_3)

text \<open>
  C5 at the document \<open>["x[[/CITACAO_LONGA]]", "ordinary"]\<close>, both paragraphs of style
  Normal at 12 pt: the close-token paragraph is styled and its token stripped, the
  element of the ordinary paragraph is as before, but it is at 10 pt after the pass,
  through the shared style. In the references pass the same input leaves the ordinary
  paragraph and the style registry as they were.
\<close>

theorem close_before_open_font_size_is_shared:
  "style_font_size (styles doc_close_first) (default_style doc_close_first)
     (text_para ''ordinary'') = Some (Pt 12) \<and>
   (case process_long_quote_markers doc_close_first of
      Inl e \<Rightarrow> False
    | Inr (d, n) \<Rightarrow>
        n = 1 \<and>
        map para_text (paragraphs (body d)) = [''x'', ''ordinary''] \<and>
        list_all (carries_long_quote_style (styles d) (default_style d))
          (paragraphs (take 1 (body d))) \<and>
        body d ! 1 = P (text_para ''ordinary'') \<and>
        style_font_size (styles d) (default_style d) (text_para ''ordinary'') = Some (Pt 10)) \<and>
   Pt 10 \<noteq> Pt 12 \<and>
   body (fst (apply_references_block_format doc_close_first_refs (5 / 4) 1 6))
     = [P (refs_style (5 / 4) 1 6 (set_para_text (text_para ''x[[/REFERENCIAS]]'') ''x'')),
        P (text_para ''ordinary'')] \<and>
   styles (fst (apply_references_block_format doc_close_first_refs (5 / 4) 1 6))
     = styles doc_close_first_refs"
  by (simp add: doc_close_first_def doc_close_first_refs_def lq_eval marker_defs Pt_10_12
      apply_references_block_format_def arbf_loop.simps)

subsection \<open>Captions\<close>

text \<open>
  C2 at three documents, with both caption flags set: a body that holds a table and no
  paragraph raises IndexError at \<open>doc.paragraphs[0]\<close>; a body with one picture raises
  AttributeError at \<open>insert_paragraph_after\<close>; and for a body with a paragraph and a
  table the walk returns, with an element that is no paragraph put before and after the
  table and no caption paragraph anywhere.
\<close>

theorem captions_are_not_generated:
  "ensure_captions doc_table_only True True = Inl IndexError \<and>
   ensure_captions doc_one_image True True = Inl AttributeError \<and>
   map_sum id body (ensure_captions doc_text_and_table True True)
     = Inr [P (text_para ''abc''), Other ''CT_P'', Tbl \<lparr>rows = []\<rparr>, Other ''CT_P'',
            Other ''sectPr'']"
  by (simp add: ensure_captions_def doc_table_only_def doc_one_image_def doc_text_and_table_def
      prevent_table_row_split_and_repeat_header_def set_row_cant_split_def get_or_add_trPr_def
      has_drawing_def image_para_def text_para_def add_caption_after_paragraph_def
      insert_paragraph_after_def caption_above_def caption_below_def new_element_of_class_def
      Let_def)

end
